theory Spec2Isabelle
  imports Main
begin

section \<open>JavaScript strings and arrays\<close>

text \<open>
  Strings are modelled as \<^typ>\<open>string\<close>; the commit messages, hashes, branch names and error
  messages handled here are taken to be ASCII, so that one \<^typ>\<open>char\<close> is one UTF-16 code
  unit of the source. The few non-ASCII decorations of user-visible texts are written out
  as their UTF-8 bytes.
\<close>

definition dquote :: string where
  "dquote = [CHR 0x22]"

definition newline :: string where
  "newline = [CHR 0x0A]"

text \<open>The bullet U+2022 of the warning dialog.\<close>

definition bullet :: string where
  "bullet = [CHR 0xE2, CHR 0x80, CHR 0xA2]"

text \<open>The warning sign U+26A0 U+FE0F of the warning dialog.\<close>

definition warning_sign :: string where
  "warning_sign = [CHR 0xE2, CHR 0x9A, CHR 0xA0, CHR 0xEF, CHR 0xB8, CHR 0x8F]"

text \<open>\<^verbatim>\<open>s.startsWith(p)\<close>\<close>

definition startsWith :: "string \<Rightarrow> string \<Rightarrow> bool" where
  "startsWith s p = (take (length p) s = p)"

text \<open>\<^verbatim>\<open>s.includes(p)\<close>: \<open>p\<close> occurs in \<open>s\<close> as a contiguous substring.\<close>

fun str_includes :: "string \<Rightarrow> string \<Rightarrow> bool" where
  "str_includes [] p = (p = [])"
| "str_includes (c # cs) p = (startsWith (c # cs) p \<or> str_includes cs p)"

text \<open>\<^verbatim>\<open>s.substring(0, n)\<close>\<close>

definition substring0 :: "nat \<Rightarrow> string \<Rightarrow> string" where
  "substring0 n s = take n s"

text \<open>\<^verbatim>\<open>xs.join(sep)\<close>\<close>

fun join :: "string \<Rightarrow> string list \<Rightarrow> string" where
  "join sep [] = []"
| "join sep [x] = x"
| "join sep (x # y # ys) = x @ sep @ join sep (y # ys)"

text \<open>
  \<^verbatim>\<open>xs.slice(start)\<close> for an integer \<open>start\<close>: a negative start counts from the end
  (clamped at the first element), a non-negative one from the front (clamped at the
  length). In particular \<^verbatim>\<open>xs.slice(-0)\<close> is \<^verbatim>\<open>xs.slice(0)\<close>, the whole array.
\<close>

definition slice_from :: "int \<Rightarrow> 'a list \<Rightarrow> 'a list" where
  "slice_from start xs =
     (let n = int (length xs);
          k = (if start < 0 then max (n + start) 0 else min start n)
      in drop (nat k) xs)"

text \<open>Decimal rendering of a number in a template literal, \<^verbatim>\<open>`${n}`\<close>.\<close>

definition digit_char :: "nat \<Rightarrow> char" where
  "digit_char d = char_of (48 + d)"

function show_nat :: "nat \<Rightarrow> string" where
  "show_nat n = (if n < 10 then [digit_char n] else show_nat (n div 10) @ [digit_char (n mod 10)])"
  by pat_completeness auto
termination
  by (relation "measure id") auto

declare show_nat.simps [simp del]

section \<open>Data model\<close>

record Commit =
  hash :: string
  message :: string
  author :: string
  date :: string

record ReflogEntry =
  entry_hash :: string
  entry_message :: string

datatype ResetMode = Soft | Mixed | Hard

datatype OngoingOperation = Merge | Rebase | CherryPickOp | Bisect

datatype ActionType =
  undo_commit | amend_message | amend_commit | move_commits | recover_branch | create_branch

record RepoPosition =
  headHash :: string
  branch :: "string option"

record RecordedAction =
  action_id :: string
  action_type :: ActionType
  timestamp :: nat
  description :: string
  beforeState :: RepoPosition
  afterState :: "RepoPosition option"
  undoCommand :: "string option"
  canUndo :: bool

record SafetyCheckResult =
  safe :: bool
  warnings :: "string list"
  blockers :: "string list"

record GitPanicConfig =
  showStatusBarButton :: bool
  confirmDangerousActions :: bool
  maxActionHistory :: int

section \<open>The git wrapper\<close>

text \<open>
  The class behind \<^verbatim>\<open>getGitWrapper()\<close> is a parameter of the model. Its read-only queries
  are functions of an abstract repository state \<open>'g\<close>; they are taken to return a value
  and not to throw. Its mutating primitives are the constructors of \<open>GitCall\<close>; invoking
  one yields the repository state it leaves behind and, when the returned promise
  rejects, the message of the thrown error. Nothing is assumed about what a primitive
  does to the repository, whether it returns or throws.
  \<^verbatim>\<open>checkoutBranch\<close> takes an optional name because moveCommits passes it
  \<^verbatim>\<open>currentBranch!\<close>, which is null at run time when HEAD is detached.
\<close>

datatype GitCall =
    CheckoutNewBranch string string
  | CheckoutBranch "string option"
  | CherryPick string
  | HardReset string
  | SoftReset string
  | MixedReset string
  | ContinueMerge
  | ContinueRebase
  | ContinueCherryPick

record 'g GitWrapper =
  getHeadHash :: "'g \<Rightarrow> string"
  getCurrentBranch :: "'g \<Rightarrow> string option"
  getRecentCommits :: "nat \<Rightarrow> 'g \<Rightarrow> Commit list"
  getLastCommit :: "'g \<Rightarrow> Commit option"
  getBranches :: "'g \<Rightarrow> string list"
  hasUncommittedChanges :: "'g \<Rightarrow> bool"
  isPushed :: "string \<Rightarrow> 'g \<Rightarrow> bool"
  invoke :: "GitCall \<Rightarrow> 'g \<Rightarrow> string option \<times> 'g"

section \<open>Safety checks (core/safetyChecks.ts)\<close>

definition pushedWarning :: "Commit \<Rightarrow> string" where
  "pushedWarning c =
     ''Commit '' @ dquote @ substring0 50 (message c) @ dquote
       @ '' has been pushed. Undoing will require force push.''"

definition checkBeforeReset :: "'g GitWrapper \<Rightarrow> ResetMode \<Rightarrow> nat \<Rightarrow> 'g \<Rightarrow> SafetyCheckResult" where
  "checkBeforeReset G mode commitCount g =
     (let commits = getRecentCommits G commitCount g;
          blockers1 =
            (if length commits < commitCount
             then [''Only '' @ show_nat (length commits) @ '' commits available, cannot undo ''
                     @ show_nat commitCount]
             else []);
          warnings1 =
            (if mode = Hard
             then (if hasUncommittedChanges G g
                   then [''Hard reset will discard all uncommitted changes'']
                   else [])
             else []);
          warnings2 =
            warnings1 @ map pushedWarning (filter (\<lambda>c. isPushed G (hash c) g) commits)
      in \<lparr>safe = (length blockers1 = 0), warnings = warnings2, blockers = blockers1\<rparr>)"

definition checkBeforeAmend :: "'g GitWrapper \<Rightarrow> 'g \<Rightarrow> SafetyCheckResult" where
  "checkBeforeAmend G g =
     (case getLastCommit G g of
        None \<Rightarrow> \<lparr>safe = False, warnings = [], blockers = [''No commits to amend'']\<rparr>
      | Some lastCommit \<Rightarrow>
          (let warnings1 =
                 (if isPushed G (hash lastCommit) g
                  then [''This commit has been pushed. Amending will require a force push.'']
                  else []);
               blockers1 = []
           in \<lparr>safe = (length blockers1 = 0), warnings = warnings1, blockers = blockers1\<rparr>))"

text \<open>The branch-name validator \<^verbatim>\<open>/^[a-zA-Z0-9/_-]+$/\<close>.\<close>

definition char_between :: "char \<Rightarrow> char \<Rightarrow> char \<Rightarrow> bool" where
  "char_between lo hi c = ((of_char lo :: nat) \<le> of_char c \<and> (of_char c :: nat) \<le> of_char hi)"

definition branchNameChar :: "char \<Rightarrow> bool" where
  "branchNameChar c =
     (char_between CHR ''a'' CHR ''z'' c \<or> char_between CHR ''A'' CHR ''Z'' c
      \<or> char_between CHR ''0'' CHR ''9'' c
      \<or> c = CHR ''/'' \<or> c = CHR ''_'' \<or> c = CHR ''-'')"

definition validBranchName :: "string \<Rightarrow> bool" where
  "validBranchName s = (s \<noteq> [] \<and> list_all branchNameChar s)"

definition checkBeforeBranchCreate :: "'g GitWrapper \<Rightarrow> string \<Rightarrow> 'g \<Rightarrow> SafetyCheckResult" where
  "checkBeforeBranchCreate G branchName g =
     (let blockers1 =
            (if branchName \<in> set (getBranches G g)
             then [''Branch '' @ dquote @ branchName @ dquote @ '' already exists'']
             else []);
          blockers2 =
            blockers1 @
            (if validBranchName branchName then []
             else [''Branch name contains invalid characters''])
      in \<lparr>safe = (length blockers2 = 0), warnings = [], blockers = blockers2\<rparr>)"

section \<open>Notifications and prompts\<close>

text \<open>
  What the extension shows is logged in order. \<open>ShowError\<close>, \<open>ShowSuccess\<close> and
  \<open>ShowWarning\<close> are the helpers of ui/notifications.ts (which decorate the text with a
  prefix); the other constructors are direct calls of \<^verbatim>\<open>vscode.window\<close>. What the user
  answers to a prompt is an input of the command.
\<close>

datatype Notification =
    ShowError string
  | ShowSuccess string
  | ShowWarning string
  | ErrorMessage string
  | WarningMessage string
  | InformationMessage string

text \<open>
  \<^verbatim>\<open>showQuickPick(items)\<close>: the user picks one of the items offered (by position) or
  dismisses the list.
\<close>

definition showQuickPick :: "'a list \<Rightarrow> nat option \<Rightarrow> 'a option" where
  "showQuickPick items answer =
     (case answer of
        None \<Rightarrow> None
      | Some i \<Rightarrow> (if i < length items then Some (items ! i) else None))"

section \<open>Action history (core/actionHistory.ts)\<close>

text \<open>
  A \<open>RecordedAction\<close> is a mutable object shared between the manager's array and the
  handle a command holds, so the manager is modelled with an explicit store: \<open>objects\<close>
  holds every record object ever created, an address is a position in it, and \<open>actions\<close>
  (the array \<^verbatim>\<open>this.actions\<close>) is a list of addresses. \<open>has_context\<close> says whether
  \<^verbatim>\<open>this.context\<close> is set; \<open>workspaceState\<close> is the value last stored under the storage
  key, if any.
\<close>

record ActionHistoryManager =
  objects :: "RecordedAction list"
  actions :: "nat list"
  has_context :: bool
  workspaceState :: "RecordedAction list option"

definition deref :: "ActionHistoryManager \<Rightarrow> nat \<Rightarrow> RecordedAction" where
  "deref s a = objects s ! a"

definition saveToStorage :: "GitPanicConfig \<Rightarrow> ActionHistoryManager \<Rightarrow> ActionHistoryManager" where
  "saveToStorage config s =
     (if \<not> has_context s then s
      else
        (let trimmedActions = slice_from (- maxActionHistory config) (actions s)
         in s\<lparr>actions := trimmedActions,
               workspaceState := Some (map (deref s) trimmedActions)\<rparr>))"

text \<open>
  The identifier (from the clock and the random generator) and the time stamp are inputs
  of \<open>recordAction\<close>. The result is the handle of the new record.
\<close>

definition recordAction ::
  "'g GitWrapper \<Rightarrow> ActionType \<Rightarrow> string \<Rightarrow> bool \<Rightarrow> string \<Rightarrow> nat \<Rightarrow> 'g
     \<Rightarrow> ActionHistoryManager \<Rightarrow> nat \<times> ActionHistoryManager" where
  "recordAction G ty descr undoable ident now g s =
     (let action =
            \<lparr>action_id = ident, action_type = ty, timestamp = now, description = descr,
             beforeState = \<lparr>headHash = getHeadHash G g, branch = getCurrentBranch G g\<rparr>,
             afterState = None, undoCommand = None, canUndo = undoable\<rparr>;
          a = length (objects s)
      in (a, s\<lparr>objects := objects s @ [action], actions := actions s @ [a]\<rparr>))"

definition completeAction ::
  "'g GitWrapper \<Rightarrow> GitPanicConfig \<Rightarrow> nat \<Rightarrow> 'g \<Rightarrow> ActionHistoryManager \<Rightarrow> ActionHistoryManager" where
  "completeAction G config a g s =
     (let after = \<lparr>headHash = getHeadHash G g, branch = getCurrentBranch G g\<rparr>;
          action1 = (deref s a)\<lparr>afterState := Some after\<rparr>;
          action2 =
            (if canUndo action1 \<and> headHash (beforeState action1) \<noteq> headHash after
             then action1\<lparr>undoCommand :=
                     Some (''git reset --hard '' @ headHash (beforeState action1))\<rparr>
             else action1)
      in saveToStorage config (s\<lparr>objects := (objects s)[a := action2]\<rparr>))"

text \<open>
  The test \<^verbatim>\<open>canUndo && undoCommand\<close>: an absent or empty \<open>undoCommand\<close> is falsy.
\<close>

definition isUndoable :: "RecordedAction \<Rightarrow> bool" where
  "isUndoable r = (canUndo r \<and> (case undoCommand r of None \<Rightarrow> False | Some c \<Rightarrow> c \<noteq> []))"

text \<open>The scan runs from the last index down to 0 and returns the first hit.\<close>

definition getLastUndoableAction :: "ActionHistoryManager \<Rightarrow> nat option" where
  "getLastUndoableAction s = find (\<lambda>a. isUndoable (deref s a)) (rev (actions s))"

definition clearHistory :: "GitPanicConfig \<Rightarrow> ActionHistoryManager \<Rightarrow> ActionHistoryManager" where
  "clearHistory config s = saveToStorage config (s\<lparr>actions := []\<rparr>)"

section \<open>The world a command runs in\<close>

text \<open>
  \<open>repo\<close> is the repository, \<open>calls\<close> the log of the mutating primitives invoked so far,
  each with its outcome (\<open>None\<close>: it returned, \<open>Some m\<close>: it threw an error with message
  \<open>m\<close>), \<open>shown\<close> the log of notifications, \<open>history\<close> the action history singleton.
\<close>

record 'g World =
  repo :: 'g
  calls :: "(GitCall \<times> string option) list"
  shown :: "Notification list"
  history :: ActionHistoryManager

definition exec :: "'g GitWrapper \<Rightarrow> GitCall \<Rightarrow> 'g World \<Rightarrow> string option \<times> 'g World" where
  "exec G c w =
     (let (outcome, g') = invoke G c (repo w)
      in (outcome, w\<lparr>repo := g', calls := calls w @ [(c, outcome)]\<rparr>))"

definition notify :: "Notification \<Rightarrow> 'g World \<Rightarrow> 'g World" where
  "notify n w = w\<lparr>shown := shown w @ [n]\<rparr>"

record UndoResult =
  success :: bool
  result_message :: string

definition undoLastAction ::
  "'g GitWrapper \<Rightarrow> GitPanicConfig \<Rightarrow> 'g World \<Rightarrow> UndoResult \<times> 'g World" where
  "undoLastAction G config w =
     (case getLastUndoableAction (history w) of
        None \<Rightarrow> (\<lparr>success = False, result_message = ''No undoable actions in history''\<rparr>, w)
      | Some a \<Rightarrow>
          (let target = headHash (beforeState (deref (history w) a)) in
           if target = []
           then (\<lparr>success = False, result_message = ''Cannot undo: missing before state''\<rparr>, w)
           else
             (case exec G (HardReset target) w of
                (Some err, w1) \<Rightarrow>
                  (\<lparr>success = False, result_message = ''Failed to undo: '' @ err\<rparr>, w1)
              | (None, w1) \<Rightarrow>
                  (let s = history w1;
                       lastAction = (deref s a)\<lparr>canUndo := False\<rparr>;
                       s1 = saveToStorage config (s\<lparr>objects := (objects s)[a := lastAction]\<rparr>)
                   in (\<lparr>success = True,
                        result_message = ''Undid '' @ dquote @ description lastAction @ dquote\<rparr>,
                       w1\<lparr>history := s1\<rparr>)))))"

text \<open>\<^verbatim>\<open>showSafetyWarnings\<close>; \<open>answer\<close> is the button chosen in the warning dialog.\<close>

definition showSafetyWarnings ::
  "SafetyCheckResult \<Rightarrow> string option \<Rightarrow> 'g World \<Rightarrow> bool \<times> 'g World" where
  "showSafetyWarnings result answer w =
     (if \<not> safe result
      then (False,
            notify (ErrorMessage (''Cannot proceed:'' @ newline @ join newline (blockers result))) w)
      else if length (warnings result) > 0
      then (answer = Some ''Proceed Anyway'',
            notify (WarningMessage
                      (warning_sign @ '' Warnings:'' @ newline @ bullet @ '' ''
                         @ join (newline @ bullet @ '' '') (warnings result))) w)
      else (True, w))"

section \<open>Undo commits (commands/undoCommit.ts)\<close>

text \<open>
  The answers of the user to the prompts of \<open>undoLastCommit\<close>: the position picked in the
  list of commits, the position picked in the list of reset modes, and the button chosen
  in the warning dialog. A list item of the commit prompt is modelled by its
  \<open>commitCount\<close> (its position plus one); the other fields are presentation.
\<close>

record UndoAnswers =
  undo_pickedCommit :: "nat option"
  undo_pickedMode :: "nat option"
  undo_warningsAnswer :: "string option"

definition resetOptions :: "ResetMode list" where
  "resetOptions = [Soft, Mixed, Hard]"

definition modeName :: "ResetMode \<Rightarrow> string" where
  "modeName m = (case m of Soft \<Rightarrow> ''soft'' | Mixed \<Rightarrow> ''mixed'' | Hard \<Rightarrow> ''hard'')"

definition resetCall :: "ResetMode \<Rightarrow> string \<Rightarrow> GitCall" where
  "resetCall m resetRef =
     (case m of Soft \<Rightarrow> SoftReset resetRef | Mixed \<Rightarrow> MixedReset resetRef | Hard \<Rightarrow> HardReset resetRef)"

definition commitCounts :: "Commit list \<Rightarrow> nat list" where
  "commitCounts commits = map Suc [0 ..< length commits]"

definition undoLastCommit ::
  "'g GitWrapper \<Rightarrow> GitPanicConfig \<Rightarrow> UndoAnswers \<Rightarrow> string \<Rightarrow> nat \<Rightarrow> 'g World \<Rightarrow> 'g World" where
  "undoLastCommit G config ans ident now w =
     (let commits = getRecentCommits G 5 (repo w) in
      if length commits = 0 then notify (ShowError ''No commits to undo'') w
      else
        (case showQuickPick (commitCounts commits) (undo_pickedCommit ans) of
           None \<Rightarrow> w
         | Some commitCount \<Rightarrow>
             (case showQuickPick resetOptions (undo_pickedMode ans) of
                None \<Rightarrow> w
              | Some mode \<Rightarrow>
                  (let safetyCheck = checkBeforeReset G mode commitCount (repo w);
                       (proceed, w1) = showSafetyWarnings safetyCheck (undo_warningsAnswer ans) w
                   in if \<not> proceed then w1
                      else
                        (let (action, s1) =
                               recordAction G undo_commit
                                 (''Undo '' @ show_nat commitCount @ '' commit(s) with ''
                                    @ modeName mode @ '' reset'')
                                 True ident now (repo w1) (history w1);
                             w2 = w1\<lparr>history := s1\<rparr>;
                             resetRef = ''HEAD~'' @ show_nat commitCount
                         in case exec G (resetCall mode resetRef) w2 of
                              (Some err, w3) \<Rightarrow>
                                notify (ShowError (''Failed to undo commit: '' @ err)) w3
                            | (None, w3) \<Rightarrow>
                                notify
                                  (ShowSuccess
                                     (''Undid '' @ show_nat commitCount @ '' commit(s) with ''
                                        @ modeName mode @ '' reset''))
                                  (w3\<lparr>history :=
                                        completeAction G config action (repo w3) (history w3)\<rparr>))))))"

section \<open>Move commits (commands/moveCommits.ts)\<close>

record BranchOption =
  isNew :: bool
  branchName :: string

text \<open>
  The answers of the user: the positions picked in the commit list and in the list of
  target branches, the text returned by the input box for a new branch name, the button
  of the warning dialog, and the button of the final confirmation. The input box may
  return any text: the validation it runs while the user types is not modelled.
\<close>

record MoveAnswers =
  pickedCommit :: "nat option"
  pickedBranch :: "nat option"
  typedBranchName :: "string option"
  warningsAnswer :: "string option"
  confirmAnswer :: "string option"

definition branchOptions :: "string list \<Rightarrow> string option \<Rightarrow> BranchOption list" where
  "branchOptions allBranches currentBranch =
     \<lparr>isNew = True, branchName = []\<rparr>
     # map (\<lambda>b. \<lparr>isNew = False, branchName = b\<rparr>)
         (filter (\<lambda>b. Some b \<noteq> currentBranch \<and> \<not> startsWith b ''remotes/'') allBranches)"

text \<open>The handler of the outer \<^verbatim>\<open>try\<close> of moveCommits.\<close>

definition moveCommitsFailed :: "string \<Rightarrow> 'g World \<Rightarrow> 'g World" where
  "moveCommitsFailed err w = notify (ShowError (''Failed to move commits: '' @ err)) w"

text \<open>The description and the two messages of moveCommits that the results below speak about.\<close>

definition moveDescription :: "nat \<Rightarrow> string \<Rightarrow> string" where
  "moveDescription commitCount targetBranch =
     ''Moved '' @ show_nat commitCount @ '' commit(s) to '' @ targetBranch"

definition cherryPickFailedMessage :: "Commit \<Rightarrow> string" where
  "cherryPickFailedMessage c =
     ''Cherry-pick failed for commit '' @ substring0 7 (hash c)
       @ ''. Please resolve conflicts manually.''"

definition movedMessage :: "nat \<Rightarrow> string \<Rightarrow> string" where
  "movedMessage commitCount targetBranch =
     ''Moved '' @ show_nat commitCount @ '' commit(s) to '' @ dquote @ targetBranch @ dquote"

text \<open>
  The loop over \<open>commitsToMove\<close>. The result is \<open>False\<close> when a cherry-pick threw and the
  command returned from inside the loop.
\<close>

fun cherryPickLoop :: "'g GitWrapper \<Rightarrow> Commit list \<Rightarrow> 'g World \<Rightarrow> bool \<times> 'g World" where
  "cherryPickLoop G [] w = (True, w)"
| "cherryPickLoop G (c # cs) w =
     (case exec G (CherryPick (hash c)) w of
        (Some err, w1) \<Rightarrow>
          (False,
           notify (ShowError (cherryPickFailedMessage c)) w1)
      | (None, w1) \<Rightarrow> cherryPickLoop G cs w1)"

definition baseBranch :: "string option \<Rightarrow> string" where
  "baseBranch currentBranch =
     (case currentBranch of None \<Rightarrow> ''HEAD'' | Some b \<Rightarrow> (if b = [] then ''HEAD'' else b))"

definition targetCheckout :: "bool \<Rightarrow> string \<Rightarrow> string option \<Rightarrow> nat \<Rightarrow> GitCall" where
  "targetCheckout new targetBranch currentBranch commitCount =
     (if new
      then CheckoutNewBranch targetBranch (baseBranch currentBranch @ ''~'' @ show_nat commitCount)
      else CheckoutBranch (Some targetBranch))"

text \<open>
  The part of moveCommits after the last prompt: from \<open>recordAction\<close> to the success
  notification. The query that fills the unused variable \<^verbatim>\<open>headBeforeMove\<close> has no
  effect and is left out. The button of the success notification (which checks the
  target branch out when clicked) acts after the command has returned and is not part
  of the run.
\<close>

definition performMove ::
  "'g GitWrapper \<Rightarrow> GitPanicConfig \<Rightarrow> string \<Rightarrow> nat \<Rightarrow> Commit list \<Rightarrow> nat \<Rightarrow> bool \<Rightarrow> string
     \<Rightarrow> string option \<Rightarrow> 'g World \<Rightarrow> 'g World" where
  "performMove G config ident now commits commitCount new targetBranch currentBranch w =
     (let (action, s1) =
            recordAction G move_commits (moveDescription commitCount targetBranch)
              True ident now (repo w) (history w);
          w1 = w\<lparr>history := s1\<rparr>;
          commitsToMove = rev (take commitCount commits)
      in case exec G (targetCheckout new targetBranch currentBranch commitCount) w1 of
           (Some err, w2) \<Rightarrow> moveCommitsFailed err w2
         | (None, w2) \<Rightarrow>
             (case cherryPickLoop G commitsToMove w2 of
                (False, w3) \<Rightarrow> w3
              | (True, w3) \<Rightarrow>
                  (case exec G (CheckoutBranch currentBranch) w3 of
                     (Some err, w4) \<Rightarrow> moveCommitsFailed err w4
                   | (None, w4) \<Rightarrow>
                       (case exec G (HardReset (''HEAD~'' @ show_nat commitCount)) w4 of
                          (Some err, w5) \<Rightarrow> moveCommitsFailed err w5
                        | (None, w5) \<Rightarrow>
                            notify (ShowSuccess (movedMessage commitCount targetBranch))
                              (w5\<lparr>history :=
                                    completeAction G config action (repo w5) (history w5)\<rparr>)))))"

text \<open>
  The target branch chosen: the typed name for a new branch (an absent or empty answer
  ends the command), the name of the option otherwise.
\<close>

definition chooseTarget :: "BranchOption \<Rightarrow> string option \<Rightarrow> string option" where
  "chooseTarget selectedBranch typed =
     (if isNew selectedBranch
      then (case typed of None \<Rightarrow> None | Some n \<Rightarrow> (if n = [] then None else Some n))
      else Some (branchName selectedBranch))"

text \<open>
  The text of the modal confirmation dialog; a null \<^verbatim>\<open>currentBranch\<close> is rendered as
  \<open>null\<close> by the template literal.
\<close>

definition confirmMoveText :: "string \<Rightarrow> nat \<Rightarrow> string option \<Rightarrow> string" where
  "confirmMoveText targetBranch commitCount currentBranch =
     ''This will:'' @ newline
       @ ''1. Create/switch to branch '' @ dquote @ targetBranch @ dquote @ newline
       @ ''2. Cherry-pick '' @ show_nat commitCount @ '' commit(s)'' @ newline
       @ ''3. Return to '' @ dquote
       @ (case currentBranch of None \<Rightarrow> ''null'' | Some b \<Rightarrow> b) @ dquote
       @ '' and remove these commits'' @ newline @ newline @ ''Continue?''"

definition moveCommits ::
  "'g GitWrapper \<Rightarrow> GitPanicConfig \<Rightarrow> MoveAnswers \<Rightarrow> string \<Rightarrow> nat \<Rightarrow> 'g World \<Rightarrow> 'g World" where
  "moveCommits G config ans ident now w =
     (let commits = getRecentCommits G 10 (repo w) in
      if length commits = 0 then notify (ShowError ''No commits to move'') w
      else
        (case showQuickPick (commitCounts commits) (pickedCommit ans) of
           None \<Rightarrow> w
         | Some commitCount \<Rightarrow>
             (let allBranches = getBranches G (repo w);
                  currentBranch = getCurrentBranch G (repo w)
              in case showQuickPick (branchOptions allBranches currentBranch) (pickedBranch ans) of
                   None \<Rightarrow> w
                 | Some selectedBranch \<Rightarrow>
                     (case chooseTarget selectedBranch (typedBranchName ans) of
                        None \<Rightarrow> w
                      | Some targetBranch \<Rightarrow>
                          (let safetyCheck = checkBeforeReset G Hard commitCount (repo w);
                               (proceed, w1) =
                                 showSafetyWarnings safetyCheck (warningsAnswer ans) w
                           in if \<not> proceed then w1
                              else
                                (let w2 = notify
                                            (WarningMessage
                                               (confirmMoveText targetBranch commitCount
                                                  currentBranch)) w1
                                 in if confirmAnswer ans \<noteq> Some ''Yes, move commits'' then w2
                                    else performMove G config ident now commits commitCount
                                           (isNew selectedBranch) targetBranch currentBranch
                                           w2))))))"

section \<open>Continuing an ongoing operation (performContinue)\<close>

definition operationName :: "OngoingOperation \<Rightarrow> string" where
  "operationName operation =
     (case operation of
        Merge \<Rightarrow> ''Merge'' | Rebase \<Rightarrow> ''Rebase'' | CherryPickOp \<Rightarrow> ''Cherry-pick''
      | Bisect \<Rightarrow> ''Bisect'')"

text \<open>
  The result says how the function ends: \<open>None\<close> when it returns, \<open>Some m\<close> when it throws
  an error with message \<open>m\<close>. The \<^verbatim>\<open>switch\<close> has no case for a bisect.
\<close>

definition performContinue ::
  "'g GitWrapper \<Rightarrow> OngoingOperation \<Rightarrow> 'g World \<Rightarrow> string option \<times> 'g World" where
  "performContinue G operation w =
     (let (outcome, w1) =
            (case operation of
               Merge \<Rightarrow> exec G ContinueMerge w
             | Rebase \<Rightarrow> exec G ContinueRebase w
             | CherryPickOp \<Rightarrow> exec G ContinueCherryPick w
             | Bisect \<Rightarrow> (None, w))
      in case outcome of
           None \<Rightarrow>
             (None, notify (ShowSuccess (operationName operation @ '' completed successfully'')) w1)
         | Some errorMessage \<Rightarrow>
             (if str_includes errorMessage ''conflict'' \<or> str_includes errorMessage ''CONFLICT''
              then (None,
                    notify (ShowError ''Cannot continue: there are still unresolved conflicts'') w1)
              else (Some errorMessage, w1)))"

section \<open>Recovering a deleted branch: the scan of the reflog (recoverBranch)\<close>

text \<open>
  The white space of the regular-expression class \<^verbatim>\<open>\s\<close>, among the code units below
  256: tab, line feed, vertical tab, form feed, carriage return, space and the
  no-break space. \<^verbatim>\<open>\S\<close> is its complement.
\<close>

definition isSpace :: "char \<Rightarrow> bool" where
  "isSpace c = ((of_char c :: nat) \<in> {9, 10, 11, 12, 13, 32, 160})"

definition nonSpace :: "char \<Rightarrow> bool" where
  "nonSpace c = (\<not> isSpace c)"

text \<open>
  \<^verbatim>\<open>/checkout: moving from (\S+) to (\S+)/\<close> tried at the start of \<open>s\<close>. The first group is
  greedy and must be followed by a space, so it can only be the whole run of non-space
  characters; the second group is the whole run that follows \<^verbatim>\<open>" to "\<close>. Both must be
  non-empty. The result is the pair of groups.
\<close>

definition matchMoveHere :: "string \<Rightarrow> (string \<times> string) option" where
  "matchMoveHere s =
     (if startsWith s ''checkout: moving from ''
      then
        (let rest1 = drop (length ''checkout: moving from '') s;
             fromBranch = takeWhile nonSpace rest1;
             rest2 = dropWhile nonSpace rest1
         in if fromBranch \<noteq> [] \<and> startsWith rest2 '' to ''
            then
              (let toBranch = takeWhile nonSpace (drop (length '' to '') rest2)
               in if toBranch \<noteq> [] then Some (fromBranch, toBranch) else None)
            else None)
      else None)"

text \<open>\<^verbatim>\<open>message.match(...)\<close>: the leftmost position at which the expression matches.\<close>

fun matchMove :: "string \<Rightarrow> (string \<times> string) option" where
  "matchMove [] = matchMoveHere []"
| "matchMove (c # cs) =
     (case matchMoveHere (c # cs) of Some m \<Rightarrow> Some m | None \<Rightarrow> matchMove cs)"

record BranchMove =
  fromBranch :: string
  toBranch :: string
  move_hash :: string
  move_message :: string

definition branchMoveOf :: "ReflogEntry \<Rightarrow> BranchMove option" where
  "branchMoveOf entry =
     (if str_includes (entry_message entry) ''checkout: moving from''
      then
        (case matchMove (entry_message entry) of
           None \<Rightarrow> None
         | Some (a, b) \<Rightarrow>
             Some \<lparr>fromBranch = a, toBranch = b, move_hash = entry_hash entry,
                   move_message = entry_message entry\<rparr>)
      else None)"

definition branchMoves :: "ReflogEntry list \<Rightarrow> BranchMove list" where
  "branchMoves reflog = List.map_filter branchMoveOf reflog"

text \<open>\<^verbatim>\<open>/^[0-9a-f]{7,40}$/\<close>\<close>

definition hexChar :: "char \<Rightarrow> bool" where
  "hexChar c = (char_between CHR ''0'' CHR ''9'' c \<or> char_between CHR ''a'' CHR ''f'' c)"

definition isBareHash :: "string \<Rightarrow> bool" where
  "isBareHash s = (7 \<le> length s \<and> length s \<le> 40 \<and> list_all hexChar s)"

text \<open>
  The loop that fills the map \<open>deletedBranches\<close>. The map keeps its keys in the order of
  insertion, so it is an association list; each value is the pair of the hash and the
  message of the reflog entry.
\<close>

fun scanMoves ::
  "string list \<Rightarrow> BranchMove list \<Rightarrow> (string \<times> string \<times> string) list
     \<Rightarrow> (string \<times> string \<times> string) list" where
  "scanMoves existingBranches [] deleted = deleted"
| "scanMoves existingBranches (move # moves) deleted =
     scanMoves existingBranches moves
       (if fromBranch move \<notin> set existingBranches
           \<and> map_of deleted (fromBranch move) = None
        then (if fromBranch move \<noteq> ''HEAD'' \<and> \<not> isBareHash (fromBranch move)
              then deleted @ [(fromBranch move, move_hash move, move_message move)]
              else deleted)
        else deleted)"

definition deletedBranches ::
  "ReflogEntry list \<Rightarrow> string list \<Rightarrow> (string \<times> string \<times> string) list" where
  "deletedBranches reflog allBranches = scanMoves allBranches (branchMoves reflog) []"

text \<open>The name that the regular expression extracts from a reflog entry, if it matches.\<close>

definition movedFrom :: "ReflogEntry \<Rightarrow> string option" where
  "movedFrom entry = map_option fst (matchMove (entry_message entry))"

section \<open>Sequences of ledger operations\<close>

text \<open>
  One logical action as a command brackets it: \<open>recordAction\<close> in the repository state
  \<open>act_before\<close>, then \<open>completeAction\<close> on the handle in the repository state \<open>act_after\<close>.
\<close>

record 'g LoggedAction =
  act_type :: ActionType
  act_description :: string
  act_canUndo :: bool
  act_ident :: string
  act_time :: nat
  act_before :: 'g
  act_after :: 'g

definition recordAndComplete ::
  "'g GitWrapper \<Rightarrow> GitPanicConfig \<Rightarrow> 'g LoggedAction \<Rightarrow> ActionHistoryManager \<Rightarrow> ActionHistoryManager" where
  "recordAndComplete G config x s =
     (let (a, s1) =
            recordAction G (act_type x) (act_description x) (act_canUndo x) (act_ident x)
              (act_time x) (act_before x) s
      in completeAction G config a (act_after x) s1)"

fun recordAll ::
  "'g GitWrapper \<Rightarrow> GitPanicConfig \<Rightarrow> 'g LoggedAction list \<Rightarrow> ActionHistoryManager \<Rightarrow> ActionHistoryManager" where
  "recordAll G config [] s = s"
| "recordAll G config (x # xs) s = recordAll G config xs (recordAndComplete G config x s)"

text \<open>The record that a bracketed action leaves in the log.\<close>

definition completedRecord :: "'g GitWrapper \<Rightarrow> 'g LoggedAction \<Rightarrow> RecordedAction" where
  "completedRecord G x =
     \<lparr>action_id = act_ident x, action_type = act_type x, timestamp = act_time x,
      description = act_description x,
      beforeState = \<lparr>headHash = getHeadHash G (act_before x),
                     branch = getCurrentBranch G (act_before x)\<rparr>,
      afterState = Some \<lparr>headHash = getHeadHash G (act_after x),
                          branch = getCurrentBranch G (act_after x)\<rparr>,
      undoCommand =
        (if act_canUndo x \<and> getHeadHash G (act_before x) \<noteq> getHeadHash G (act_after x)
         then Some (''git reset --hard '' @ getHeadHash G (act_before x)) else None),
      canUndo = act_canUndo x\<rparr>"

text \<open>The manager right after \<open>initialize\<close> on a workspace with nothing stored.\<close>

definition emptyHistory :: ActionHistoryManager where
  "emptyHistory = \<lparr>objects = [], actions = [], has_context = True, workspaceState = None\<rparr>"

text \<open>
  Later uses of the ledger, as the code outside a given command can make them: open a
  record, complete a record through its handle, undo, clear, or run any primitive on the
  repository.
\<close>

datatype LedgerOp =
    OpRecord ActionType string bool string nat
  | OpComplete nat
  | OpUndo
  | OpClear
  | OpGit GitCall

fun ledgerStep :: "'g GitWrapper \<Rightarrow> GitPanicConfig \<Rightarrow> LedgerOp \<Rightarrow> 'g World \<Rightarrow> 'g World" where
  "ledgerStep G config (OpRecord ty descr undoable ident now) w =
     w\<lparr>history := snd (recordAction G ty descr undoable ident now (repo w) (history w))\<rparr>"
| "ledgerStep G config (OpComplete a) w =
     w\<lparr>history := completeAction G config a (repo w) (history w)\<rparr>"
| "ledgerStep G config OpUndo w = snd (undoLastAction G config w)"
| "ledgerStep G config OpClear w = w\<lparr>history := clearHistory config (history w)\<rparr>"
| "ledgerStep G config (OpGit c) w = snd (exec G c w)"

fun ledgerSteps :: "'g GitWrapper \<Rightarrow> GitPanicConfig \<Rightarrow> LedgerOp list \<Rightarrow> 'g World \<Rightarrow> 'g World" where
  "ledgerSteps G config [] w = w"
| "ledgerSteps G config (x # xs) w = ledgerSteps G config xs (ledgerStep G config x w)"

text \<open>
  The manager's store is well formed when the array holds each object at most once and
  only objects that exist. Every operation keeps it so.
\<close>

definition wellFormed :: "ActionHistoryManager \<Rightarrow> bool" where
  "wellFormed s = (distinct (actions s) \<and> list_all (\<lambda>a. a < length (objects s)) (actions s))"

section \<open>A small repository for examples\<close>

text \<open>
  A concrete wrapper on which the results below are instantiated: the repository has a
  HEAD hash, a current branch, a log (newest first), branches, a dirty flag, the hashes
  already pushed, and the hashes whose cherry-pick stops on a conflict.
\<close>

record ToyRepo =
  toy_head :: string
  toy_current :: "string option"
  toy_log :: "Commit list"
  toy_branches :: "string list"
  toy_dirty :: bool
  toy_pushed :: "string list"
  toy_conflicts :: "string list"

definition toyInvoke :: "GitCall \<Rightarrow> ToyRepo \<Rightarrow> string option \<times> ToyRepo" where
  "toyInvoke c g =
     (case c of
        CheckoutNewBranch b start \<Rightarrow>
          (None, g\<lparr>toy_current := Some b, toy_branches := toy_branches g @ [b]\<rparr>)
      | CheckoutBranch b \<Rightarrow> (None, g\<lparr>toy_current := b\<rparr>)
      | CherryPick h \<Rightarrow>
          (if h \<in> set (toy_conflicts g)
           then (Some (''CONFLICT (content): could not apply '' @ h), g)
           else (None, g\<lparr>toy_head := h\<rparr>))
      | HardReset r \<Rightarrow> (None, g\<lparr>toy_head := r\<rparr>)
      | SoftReset r \<Rightarrow> (None, g\<lparr>toy_head := r\<rparr>)
      | MixedReset r \<Rightarrow> (None, g\<lparr>toy_head := r\<rparr>)
      | ContinueMerge \<Rightarrow>
          (if toy_conflicts g = [] then (None, g)
           else (Some ''error: you need to resolve your conflicts first'', g))
      | ContinueRebase \<Rightarrow>
          (if toy_conflicts g = [] then (None, g)
           else (Some ''fatal: no rebase in progress'', g))
      | ContinueCherryPick \<Rightarrow>
          (if toy_conflicts g = [] then (None, g)
           else (Some ''CONFLICT (content): Merge conflict in a.txt'', g)))"

definition toyGit :: "ToyRepo GitWrapper" where
  "toyGit =
     \<lparr>getHeadHash = toy_head,
      getCurrentBranch = toy_current,
      getRecentCommits = (\<lambda>n g. take n (toy_log g)),
      getLastCommit = (\<lambda>g. case toy_log g of [] \<Rightarrow> None | c # cs \<Rightarrow> Some c),
      getBranches = toy_branches,
      hasUncommittedChanges = toy_dirty,
      isPushed = (\<lambda>h g. h \<in> set (toy_pushed g)),
      invoke = toyInvoke\<rparr>"

definition commitA :: Commit where
  "commitA = \<lparr>hash = ''aaaaaaa1'', message = ''first'', author = ''ann'', date = ''2025-01-01''\<rparr>"

definition commitB :: Commit where
  "commitB = \<lparr>hash = ''bbbbbbb2'', message = ''second'', author = ''ann'', date = ''2025-01-02''\<rparr>"

definition commitC :: Commit where
  "commitC = \<lparr>hash = ''ccccccc3'', message = ''third'', author = ''bob'', date = ''2025-01-03''\<rparr>"

definition toyRepo :: ToyRepo where
  "toyRepo =
     \<lparr>toy_head = ''ccccccc3'', toy_current = Some ''main'',
      toy_log = [commitC, commitB, commitA], toy_branches = [''main'', ''dev''],
      toy_dirty = True, toy_pushed = [''aaaaaaa1''], toy_conflicts = []\<rparr>"

definition toyConfig :: GitPanicConfig where
  "toyConfig = \<lparr>showStatusBarButton = True, confirmDangerousActions = True, maxActionHistory = 2\<rparr>"

definition toyWorld :: "ToyRepo World" where
  "toyWorld = \<lparr>repo = toyRepo, calls = [], shown = [], history = emptyHistory\<rparr>"

definition toyActionA :: "ToyRepo LoggedAction" where
  "toyActionA =
     \<lparr>act_type = undo_commit, act_description = ''Undo 1 commit(s) with hard reset'',
      act_canUndo = True, act_ident = ''id-a'', act_time = 1,
      act_before = toyRepo, act_after = toyRepo\<lparr>toy_head := ''bbbbbbb2''\<rparr>\<rparr>"

definition toyActionB :: "ToyRepo LoggedAction" where
  "toyActionB =
     \<lparr>act_type = undo_commit, act_description = ''Undo 1 commit(s) with soft reset'',
      act_canUndo = True, act_ident = ''id-b'', act_time = 2,
      act_before = toyRepo\<lparr>toy_head := ''bbbbbbb2''\<rparr>,
      act_after = toyRepo\<lparr>toy_head := ''aaaaaaa1''\<rparr>\<rparr>"

definition toyActionC :: "ToyRepo LoggedAction" where
  "toyActionC =
     \<lparr>act_type = amend_message, act_description = ''Amended commit message'',
      act_canUndo = True, act_ident = ''id-c'', act_time = 3,
      act_before = toyRepo\<lparr>toy_head := ''aaaaaaa1''\<rparr>,
      act_after = toyRepo\<lparr>toy_head := ''ddddddd4''\<rparr>\<rparr>"


text \<open>
  A record is open at an address when the object exists and carries no undo command (as
  every record does between \<open>recordAction\<close> and \<open>completeAction\<close>).
\<close>

definition openAt :: "ActionHistoryManager \<Rightarrow> nat \<Rightarrow> bool" where
  "openAt s a = (a < length (objects s) \<and> undoCommand (deref s a) = None)"

text \<open>
  How many of the first \<open>n\<close> records have left the array after \<open>n\<close> bracketed actions on
  a manager that started empty, for a maximum \<open>m\<close> that is not negative.
\<close>

definition evicted :: "int \<Rightarrow> nat \<Rightarrow> nat" where
  "evicted m n = (if m = 0 then 0 else n - nat m)"

text \<open>The state of the manager after the bracketed actions \<open>ys\<close>.\<close>

definition logInvariant ::
  "'g GitWrapper \<Rightarrow> GitPanicConfig \<Rightarrow> 'g LoggedAction list \<Rightarrow> ActionHistoryManager \<Rightarrow> bool" where
  "logInvariant G config ys s =
     (objects s = map (completedRecord G) ys
      \<and> actions s = drop (evicted (maxActionHistory config) (length ys)) [0 ..< length ys]
      \<and> has_context s)"

text \<open>
  A wrapper whose log answers only the first query of a command (the one for 5 commits):
  it stands for a repository whose commits are gone by the time the safety check asks
  again.
\<close>

definition staleGit :: "ToyRepo GitWrapper" where
  "staleGit = toyGit\<lparr>getRecentCommits := (\<lambda>n g. if n = 5 then take 5 (toy_log g) else [])\<rparr>"

definition toyUndoAnswers :: UndoAnswers where
  "toyUndoAnswers =
     \<lparr>undo_pickedCommit = Some 1, undo_pickedMode = Some 2, undo_warningsAnswer = Some ''Proceed Anyway''\<rparr>"

text \<open>The primitive that a continue of the operation invokes; a bisect has none.\<close>

definition continueCall :: "OngoingOperation \<Rightarrow> GitCall option" where
  "continueCall operation =
     (case operation of
        Merge \<Rightarrow> Some ContinueMerge | Rebase \<Rightarrow> Some ContinueRebase
      | CherryPickOp \<Rightarrow> Some ContinueCherryPick | Bisect \<Rightarrow> None)"

text \<open>A world in which a cherry-pick of the third commit has stopped on a conflict.\<close>

definition toyConflictWorld :: "ToyRepo World" where
  "toyConflictWorld = toyWorld\<lparr>repo := toyRepo\<lparr>toy_conflicts := [''ccccccc3'']\<rparr>\<rparr>"

text \<open>Two reflogs: one with checkouts away from a branch that is gone, one that left \<open>HEAD\<close>.\<close>

definition toyReflog :: "ReflogEntry list" where
  "toyReflog =
     [\<lparr>entry_hash = ''1111111aaa'', entry_message = ''checkout: moving from feature/x to main''\<rparr>,
      \<lparr>entry_hash = ''2222222bbb'', entry_message = ''commit: add parser''\<rparr>,
      \<lparr>entry_hash = ''3333333ccc'', entry_message = ''checkout: moving from main to feature/x''\<rparr>,
      \<lparr>entry_hash = ''4444444ddd'', entry_message = ''checkout: moving from feature/x to main''\<rparr>,
      \<lparr>entry_hash = ''5555555eee'', entry_message = ''checkout: moving from 0123abc to main''\<rparr>]"

definition headReflog :: "ReflogEntry list" where
  "headReflog =
     [\<lparr>entry_hash = ''abc1234'', entry_message = ''checkout: moving from HEAD to main''\<rparr>]"

section \<open>Traces\<close>

text \<open>
  What a run from the world \<open>w\<close> to the world \<open>w'\<close> added to the two logs: the primitives
  it invoked and the notifications it showed.
\<close>

definition issued :: "'g World \<Rightarrow> 'g World \<Rightarrow> (GitCall \<times> string option) list" where
  "issued w w' = drop (length (calls w)) (calls w')"

definition emitted :: "'g World \<Rightarrow> 'g World \<Rightarrow> Notification list" where
  "emitted w w' = drop (length (shown w)) (shown w')"

text \<open>The repository after the primitives \<open>cs\<close> have been invoked in order.\<close>

definition replay :: "'g GitWrapper \<Rightarrow> GitCall list \<Rightarrow> 'g \<Rightarrow> 'g" where
  "replay G cs g = fold (\<lambda>c g1. snd (invoke G c g1)) cs g"

text \<open>Every logged outcome is the outcome the primitive had when invoked in its turn.\<close>

fun traceOf :: "'g GitWrapper \<Rightarrow> 'g \<Rightarrow> (GitCall \<times> string option) list \<Rightarrow> bool" where
  "traceOf G g [] = True"
| "traceOf G g ((c, outcome) # rest) =
     (fst (invoke G c g) = outcome \<and> traceOf G (snd (invoke G c g)) rest)"

text \<open>
  The run from \<open>w\<close> to \<open>w'\<close> invoked exactly the primitives \<open>new\<close>, with these outcomes,
  and the repository of \<open>w'\<close> is what they left.
\<close>

definition ranCalls :: "'g GitWrapper \<Rightarrow> 'g World \<Rightarrow> 'g World \<Rightarrow> (GitCall \<times> string option) list \<Rightarrow> bool" where
  "ranCalls G w w' new =
     (calls w' = calls w @ new \<and> traceOf G (repo w) new
      \<and> repo w' = replay G (map fst new) (repo w))"

text \<open>The log entry of a cherry-pick that returned.\<close>

definition picked :: "Commit \<Rightarrow> GitCall \<times> string option" where
  "picked c = (CherryPick (hash c), None)"

text \<open>Answers that move the two newest commits to a new branch.\<close>

definition toyMoveAnswers :: MoveAnswers where
  "toyMoveAnswers =
     \<lparr>pickedCommit = Some 1, pickedBranch = Some 0, typedBranchName = Some ''feature/x'',
      warningsAnswer = Some ''Proceed Anyway'', confirmAnswer = Some ''Yes, move commits''\<rparr>"

section \<open>How a run of moveCommits can end\<close>

text \<open>The ledger right after moveCommits has opened its record.\<close>

definition openedMove ::
  "'g GitWrapper \<Rightarrow> string \<Rightarrow> nat \<Rightarrow> nat \<Rightarrow> string \<Rightarrow> 'g World \<Rightarrow> ActionHistoryManager" where
  "openedMove G ident now commitCount targetBranch w =
     snd (recordAction G move_commits (moveDescription commitCount targetBranch)
            True ident now (repo w) (history w))"

text \<open>
  The run from \<open>w\<close> to \<open>w'\<close> invoked exactly the primitives \<open>new\<close>, showed exactly the
  notifications \<open>notes\<close>, and left the ledger \<open>hist\<close>.
\<close>

definition ended ::
  "'g GitWrapper \<Rightarrow> 'g World \<Rightarrow> 'g World \<Rightarrow> (GitCall \<times> string option) list
     \<Rightarrow> Notification list \<Rightarrow> ActionHistoryManager \<Rightarrow> bool" where
  "ended G w w' new notes hist =
     (ranCalls G w w' new \<and> shown w' = shown w @ notes \<and> history w' = hist)"

text \<open>
  The user chose to move the \<open>n\<close> newest commits to the branch \<open>target\<close>, offered as the
  option \<open>sel\<close>.
\<close>

definition chosen ::
  "'g GitWrapper \<Rightarrow> MoveAnswers \<Rightarrow> 'g World \<Rightarrow> nat \<Rightarrow> BranchOption \<Rightarrow> string \<Rightarrow> bool" where
  "chosen G ans w n sel target =
     ((\<exists>i. pickedCommit ans = Some i \<and> i < length (getRecentCommits G 10 (repo w)) \<and> n = Suc i)
      \<and> showQuickPick (branchOptions (getBranches G (repo w)) (getCurrentBranch G (repo w)))
            (pickedBranch ans) = Some sel
      \<and> chooseTarget sel (typedBranchName ans) = Some target)"

text \<open>No success notification is among the notifications \<open>xs\<close>.\<close>

definition noSuccess :: "Notification list \<Rightarrow> bool" where
  "noSuccess xs = list_all (\<lambda>x. case x of ShowSuccess m \<Rightarrow> False | _ \<Rightarrow> True) xs"

text \<open>
  The five ways in which moveCommits can end once it has opened its record, the commit
  count \<open>n\<close>, the option \<open>sel\<close> and the branch \<open>target\<close> having been chosen and the
  notifications \<open>xs\<close> shown before: the checkout of the target fails; a cherry-pick
  fails; the checkout back fails; the hard reset fails; or all primitives return.
\<close>

definition moveOutcome ::
  "'g GitWrapper \<Rightarrow> GitPanicConfig \<Rightarrow> string \<Rightarrow> nat \<Rightarrow> 'g World \<Rightarrow> 'g World \<Rightarrow> nat
     \<Rightarrow> BranchOption \<Rightarrow> string \<Rightarrow> Notification list \<Rightarrow> bool" where
  "moveOutcome G config ident now w w' n sel target xs =
     ((\<exists>err. ended G w w'
                  [(targetCheckout (isNew sel) target (getCurrentBranch G (repo w)) n, Some err)]
                  (xs @ [ShowError (''Failed to move commits: '' @ err)])
                  (openedMove G ident now n target w))
               \<or> (\<exists>pre c post err.
                     rev (take n (getRecentCommits G 10 (repo w))) = pre @ c # post
                     \<and> ended G w w'
                          ((targetCheckout (isNew sel) target (getCurrentBranch G (repo w)) n, None)
                             # map picked pre @ [(CherryPick (hash c), Some err)])
                          (xs @ [ShowError (cherryPickFailedMessage c)])
                          (openedMove G ident now n target w))
               \<or> (\<exists>err. ended G w w'
                     ((targetCheckout (isNew sel) target (getCurrentBranch G (repo w)) n, None)
                        # map picked (rev (take n (getRecentCommits G 10 (repo w))))
                        @ [(CheckoutBranch (getCurrentBranch G (repo w)), Some err)])
                     (xs @ [ShowError (''Failed to move commits: '' @ err)])
                     (openedMove G ident now n target w))
               \<or> (\<exists>err. ended G w w'
                     ((targetCheckout (isNew sel) target (getCurrentBranch G (repo w)) n, None)
                        # map picked (rev (take n (getRecentCommits G 10 (repo w))))
                        @ [(CheckoutBranch (getCurrentBranch G (repo w)), None),
                           (HardReset (''HEAD~'' @ show_nat n), Some err)])
                     (xs @ [ShowError (''Failed to move commits: '' @ err)])
                     (openedMove G ident now n target w))
               \<or> ended G w w'
                    ((targetCheckout (isNew sel) target (getCurrentBranch G (repo w)) n, None)
                       # map picked (rev (take n (getRecentCommits G 10 (repo w))))
                       @ [(CheckoutBranch (getCurrentBranch G (repo w)), None),
                          (HardReset (''HEAD~'' @ show_nat n), None)])
                    (xs @ [ShowSuccess (movedMessage n target)])
                    (completeAction G config (length (objects (history w))) (repo w')
                       (openedMove G ident now n target w)))"

text \<open>Later uses of the ledger after a failed move: an undo, a new action, another undo.\<close>

definition toyLaterOps :: "LedgerOp list" where
  "toyLaterOps =
     [OpUndo, OpRecord undo_commit ''Undo 1 commit(s) with hard reset'' True ''id-n'' 11,
      OpGit (HardReset ''HEAD~1''), OpComplete 1, OpUndo]"

section \<open>The conflict pattern read without regard to case\<close>

text \<open>
  The pattern as the specification words it, to be compared with the test of
  \<open>performContinue\<close>: the message contains \<open>conflict\<close> in any mixture of upper and lower
  case.
\<close>

definition lowerChar :: "char \<Rightarrow> char" where
  "lowerChar c = (if char_between CHR ''A'' CHR ''Z'' c then char_of (of_char c + (32 :: nat)) else c)"

definition conflictIgnoringCase :: "string \<Rightarrow> bool" where
  "conflictIgnoringCase m = str_includes (map lowerChar m) ''conflict''"

text \<open>A wrapper every primitive of which throws an error that spells the word with a capital.\<close>

definition mixedCaseGit :: "ToyRepo GitWrapper" where
  "mixedCaseGit = toyGit\<lparr>invoke := (\<lambda>c g. (Some ''Conflict in a.txt'', g))\<rparr>"

section \<open>Safety checks: results\<close>

lemma checkBeforeReset_blockers:
  "blockers (checkBeforeReset G mode n g) =
     (if length (getRecentCommits G n g) < n
      then [''Only '' @ show_nat (length (getRecentCommits G n g))
              @ '' commits available, cannot undo '' @ show_nat n]
      else [])"
  by (simp add: checkBeforeReset_def Let_def)

lemma checkBeforeReset_safe:
  "safe (checkBeforeReset G mode n g) = (\<not> length (getRecentCommits G n g) < n)"
  by (simp add: checkBeforeReset_def Let_def)

lemma checkBeforeReset_warnings:
  "warnings (checkBeforeReset G mode n g) =
     (if mode = Hard \<and> hasUncommittedChanges G g
      then [''Hard reset will discard all uncommitted changes''] else [])
     @ map pushedWarning (filter (\<lambda>c. isPushed G (hash c) g) (getRecentCommits G n g))"
  by (simp add: checkBeforeReset_def Let_def)

text \<open>
  C7. Each of the three checks returns a result whose \<open>safe\<close> flag is true exactly when
  its list of blockers is empty. The flag is a function of the blockers alone: for
  \<open>checkBeforeReset\<close> it is decided by the number of commits found, whatever the mode, the
  uncommitted changes and the pushed commits (the sources of warnings) are; for
  \<open>checkBeforeAmend\<close> by the existence of a last commit; for \<open>checkBeforeBranchCreate\<close>,
  which never warns, by the name clash and the character test.
\<close>

theorem safe_iff_no_blockers:
  "(safe (checkBeforeReset G mode n g) = (blockers (checkBeforeReset G mode n g) = []))
   \<and> (safe (checkBeforeAmend G g) = (blockers (checkBeforeAmend G g) = []))
   \<and> (safe (checkBeforeBranchCreate G name g) = (blockers (checkBeforeBranchCreate G name g) = []))
   \<and> (safe (checkBeforeReset G mode n g) = (\<not> length (getRecentCommits G n g) < n))
   \<and> (safe (checkBeforeAmend G g) = (getLastCommit G g \<noteq> None))
   \<and> warnings (checkBeforeBranchCreate G name g) = []"
  by (simp add: checkBeforeReset_def checkBeforeAmend_def checkBeforeBranchCreate_def Let_def
      split: option.split)

section \<open>Action history: results\<close>

lemma saveToStorage_objects [simp]: "objects (saveToStorage config s) = objects s"
  by (simp add: saveToStorage_def Let_def)

lemma saveToStorage_has_context [simp]: "has_context (saveToStorage config s) = has_context s"
  by (simp add: saveToStorage_def Let_def)

lemma slice_from_drop: "\<exists>k. slice_from i xs = drop k xs"
  by (auto simp: slice_from_def Let_def)

lemma saveToStorage_actions: "\<exists>k. actions (saveToStorage config s) = drop k (actions s)"
proof (cases "has_context s")
  case True
  then show ?thesis using slice_from_drop[of "- maxActionHistory config" "actions s"]
    by (auto simp: saveToStorage_def Let_def)
next
  case False
  then have "actions (saveToStorage config s) = drop 0 (actions s)"
    by (simp add: saveToStorage_def)
  then show ?thesis by blast
qed

lemma find_rev_Some:
  "find P (rev xs) = Some a \<Longrightarrow> \<exists>older newer. xs = older @ a # newer \<and> P a \<and> (\<forall>b\<in>set newer. \<not> P b)"
proof (induction xs rule: rev_induct)
  case Nil
  then show ?case by simp
next
  case (snoc x xs)
  show ?case
  proof (cases "P x")
    case True
    with snoc.prems have "a = x" by simp
    with True show ?thesis by (intro exI[of _ xs] exI[of _ "[]"]) simp
  next
    case False
    with snoc.prems have "find P (rev xs) = Some a" by simp
    from snoc.IH[OF this] obtain older newer where
      "xs = older @ a # newer" "P a" "\<forall>b\<in>set newer. \<not> P b" by blast
    with False show ?thesis
      by (intro exI[of _ older] exI[of _ "newer @ [x]"]) simp
  qed
qed





lemma lastUndoable_split:
  assumes "getLastUndoableAction s = Some a"
  shows "\<exists>older newer. actions s = older @ a # newer \<and> isUndoable (deref s a)
           \<and> (\<forall>b\<in>set newer. \<not> isUndoable (deref s b))"
  using find_rev_Some[of "\<lambda>a. isUndoable (deref s a)" "actions s" a] assms
  by (simp add: getLastUndoableAction_def)



lemma wellFormed_empty: "wellFormed emptyHistory"
  by (simp add: wellFormed_def emptyHistory_def)

lemma wellFormed_saveToStorage:
  "wellFormed s \<Longrightarrow> wellFormed (saveToStorage config s)"
proof -
  assume wf: "wellFormed s"
  obtain k where k: "actions (saveToStorage config s) = drop k (actions s)"
    using saveToStorage_actions by blast
  have "set (drop k (actions s)) \<subseteq> set (actions s)" by (rule set_drop_subset)
  then show ?thesis using wf k
    by (auto simp: wellFormed_def list_all_iff)
qed

lemma wellFormed_recordAction:
  "wellFormed s \<Longrightarrow> wellFormed (snd (recordAction G ty descr undoable ident now g s))"
  by (auto simp: wellFormed_def recordAction_def Let_def list_all_iff)

lemma wellFormed_update:
  "wellFormed s \<Longrightarrow> wellFormed (s\<lparr>objects := (objects s)[a := r]\<rparr>)"
  by (simp add: wellFormed_def)

lemma wellFormed_completeAction:
  "wellFormed s \<Longrightarrow> wellFormed (completeAction G config a g s)"
  by (simp add: completeAction_def Let_def wellFormed_saveToStorage wellFormed_update)

lemma undo_cases:
  "history (snd (undoLastAction G config w)) = history w
   \<or> (\<exists>a. getLastUndoableAction (history w) = Some a \<and>
         history (snd (undoLastAction G config w)) =
           saveToStorage config
             ((history w)\<lparr>objects := (objects (history w))[a := (deref (history w) a)\<lparr>canUndo := False\<rparr>]\<rparr>))"
  by (auto simp: undoLastAction_def exec_def Let_def split: option.splits prod.splits)

lemma wellFormed_undoLastAction:
  "wellFormed (history w) \<Longrightarrow> wellFormed (history (snd (undoLastAction G config w)))"
  using undo_cases[of G config w]
  by (auto simp: wellFormed_saveToStorage wellFormed_update)

lemma wellFormed_ledgerStep:
  "wellFormed (history w) \<Longrightarrow> wellFormed (history (ledgerStep G config x w))"
proof (cases x)
  case (OpRecord ty descr undoable ident now)
  then show "wellFormed (history w) \<Longrightarrow> ?thesis" by (simp add: wellFormed_recordAction)
next
  case (OpComplete a)
  then show "wellFormed (history w) \<Longrightarrow> ?thesis" by (simp add: wellFormed_completeAction)
next
  case OpUndo
  then show "wellFormed (history w) \<Longrightarrow> ?thesis" by (simp add: wellFormed_undoLastAction)
next
  case OpClear
  then show "wellFormed (history w) \<Longrightarrow> ?thesis"
    using wellFormed_saveToStorage[of "(history w)\<lparr>actions := []\<rparr>" config]
    by (simp add: clearHistory_def wellFormed_def)
next
  case (OpGit c)
  then show "wellFormed (history w) \<Longrightarrow> ?thesis" by (simp add: exec_def split: prod.splits)
qed

lemma wellFormed_ledgerSteps:
  "wellFormed (history w) \<Longrightarrow> wellFormed (history (ledgerSteps G config xs w))"
  by (induction xs arbitrary: w) (simp_all add: wellFormed_ledgerStep)

lemma open_not_candidate: "openAt s a \<Longrightarrow> getLastUndoableAction s \<noteq> Some a"
proof
  assume o: "openAt s a" and "getLastUndoableAction s = Some a"
  from lastUndoable_split[OF this(2)] have "isUndoable (deref s a)" by blast
  with o show False by (simp add: openAt_def isUndoable_def)
qed

lemma ledgerStep_frame:
  assumes "openAt (history w) a" and "x \<noteq> OpComplete a"
  shows "deref (history (ledgerStep G config x w)) a = deref (history w) a
         \<and> openAt (history (ledgerStep G config x w)) a"
proof (cases x)
  case (OpRecord ty descr undoable ident now)
  with assms show ?thesis
    by (simp add: recordAction_def Let_def openAt_def deref_def nth_append)
next
  case (OpComplete b)
  with assms have "b \<noteq> a" by simp
  with OpComplete assms show ?thesis
    by (simp add: completeAction_def Let_def openAt_def deref_def)
next
  case OpUndo
  have ne: "getLastUndoableAction (history w) \<noteq> Some a"
    using assms(1) by (rule open_not_candidate)
  from undo_cases[of G config w] OpUndo assms(1) ne show ?thesis
    by (auto simp: openAt_def deref_def)
next
  case OpClear
  with assms show ?thesis by (simp add: clearHistory_def openAt_def deref_def)
next
  case (OpGit c)
  with assms show ?thesis by (simp add: exec_def split: prod.splits)
qed

lemma ledgerSteps_frame:
  assumes "openAt (history w) a" and "OpComplete a \<notin> set xs"
  shows "deref (history (ledgerSteps G config xs w)) a = deref (history w) a
         \<and> openAt (history (ledgerSteps G config xs w)) a"
  using assms
proof (induction xs arbitrary: w)
  case Nil
  then show ?case by simp
next
  case (Cons x xs)
  then have x: "x \<noteq> OpComplete a" and xs: "OpComplete a \<notin> set xs" by auto
  from ledgerStep_frame[OF Cons.prems(1) x, of G config]
  have d: "deref (history (ledgerStep G config x w)) a = deref (history w) a"
    and o: "openAt (history (ledgerStep G config x w)) a" by simp_all
  from Cons.IH[OF o xs] d show ?case by simp
qed

lemma recordAction_result:
  "recordAction G ty descr undoable ident now g s = (a, s1) \<Longrightarrow>
     a = length (objects s) \<and> openAt s1 a \<and> actions s1 = actions s @ [a]
     \<and> objects s1 = objects s @ [deref s1 a]
     \<and> has_context s1 = has_context s \<and> workspaceState s1 = workspaceState s
     \<and> deref s1 a =
         \<lparr>action_id = ident, action_type = ty, timestamp = now, description = descr,
          beforeState = \<lparr>headHash = getHeadHash G g, branch = getCurrentBranch G g\<rparr>,
          afterState = None, undoCommand = None, canUndo = undoable\<rparr>"
  by (auto simp: recordAction_def Let_def openAt_def deref_def)

lemma completeAction_deref:
  "a < length (objects s) \<Longrightarrow>
     deref (completeAction G config a g s) a =
       (let after = \<lparr>headHash = getHeadHash G g, branch = getCurrentBranch G g\<rparr>;
            action1 = (deref s a)\<lparr>afterState := Some after\<rparr>
        in if canUndo action1 \<and> headHash (beforeState action1) \<noteq> headHash after
           then action1\<lparr>undoCommand := Some (''git reset --hard '' @ headHash (beforeState action1))\<rparr>
           else action1)"
  by (simp add: completeAction_def Let_def deref_def)













text \<open>
  C5. A record is opened by \<open>recordAction\<close> in the world \<open>w\<close>; then the repository and the
  ledger are used in any way that does not complete that record (\<open>w2\<close> is the world
  reached); then \<open>completeAction\<close> closes it. The closed record has the position of \<open>w\<close>
  as \<open>beforeState\<close>, the position of \<open>w2\<close> as \<open>afterState\<close> and the \<open>canUndo\<close> flag it was
  opened with; its \<open>undoCommand\<close> is set if and only if \<open>canUndo\<close> is true and the two HEAD
  hashes differ, and is then the hard reset to the hash before. In particular, when HEAD
  has not changed, \<open>undoCommand\<close> is absent.
\<close>

theorem undoCommand_iff_head_moved:
  assumes rec: "recordAction G ty descr undoable ident now (repo w) (history w) = (a, s1)"
    and ops: "OpComplete a \<notin> set ops"
    and w2: "w2 = ledgerSteps G config ops (w\<lparr>history := s1\<rparr>)"
    and s3: "s3 = completeAction G config a (repo w2) (history w2)"
  shows "beforeState (deref s3 a)
           = \<lparr>headHash = getHeadHash G (repo w), branch = getCurrentBranch G (repo w)\<rparr>
       \<and> afterState (deref s3 a)
           = Some \<lparr>headHash = getHeadHash G (repo w2), branch = getCurrentBranch G (repo w2)\<rparr>
       \<and> canUndo (deref s3 a) = undoable
       \<and> ((undoCommand (deref s3 a) \<noteq> None)
            = (canUndo (deref s3 a) \<and> getHeadHash G (repo w) \<noteq> getHeadHash G (repo w2)))
       \<and> ((undoCommand (deref s3 a) \<noteq> None)
            = (undoCommand (deref s3 a) = Some (''git reset --hard '' @ getHeadHash G (repo w))))
       \<and> (getHeadHash G (repo w2) = getHeadHash G (repo w) \<longrightarrow> undoCommand (deref s3 a) = None)"
proof -
  from recordAction_result[OF rec] have o1: "openAt s1 a" by blast
  from recordAction_result[OF rec] have d: "deref s1 a =
         \<lparr>action_id = ident, action_type = ty, timestamp = now, description = descr,
          beforeState = \<lparr>headHash = getHeadHash G (repo w), branch = getCurrentBranch G (repo w)\<rparr>,
          afterState = None, undoCommand = None, canUndo = undoable\<rparr>" by blast
  have o: "openAt (history (w\<lparr>history := s1\<rparr>)) a" using o1 by simp
  from ledgerSteps_frame[OF o ops, of G config] w2
  have d2: "deref (history w2) a = deref s1 a" and o2: "openAt (history w2) a" by simp_all
  from o2 have "a < length (objects (history w2))" by (simp add: openAt_def)
  from completeAction_deref[OF this, of G config "repo w2"] s3 d2 d
  show ?thesis by (simp add: Let_def)
qed

theorem undoCommand_iff_head_moved_witness:
  "recordAction toyGit undo_commit ''Undo 1 commit(s) with hard reset'' True ''id-1'' 7
       (repo toyWorld) (history toyWorld)
     = (0, snd (recordAction toyGit undo_commit ''Undo 1 commit(s) with hard reset'' True ''id-1'' 7
                  (repo toyWorld) (history toyWorld)))
   \<and> OpComplete 0 \<notin> set [OpGit (HardReset ''HEAD~1'')]
   \<and> undoCommand
        (deref
           (completeAction toyGit toyConfig 0
              (repo (ledgerSteps toyGit toyConfig [OpGit (HardReset ''HEAD~1'')]
                       (toyWorld\<lparr>history := snd (recordAction toyGit undo_commit
                          ''Undo 1 commit(s) with hard reset'' True ''id-1'' 7
                          (repo toyWorld) (history toyWorld))\<rparr>)))
              (history (ledgerSteps toyGit toyConfig [OpGit (HardReset ''HEAD~1'')]
                       (toyWorld\<lparr>history := snd (recordAction toyGit undo_commit
                          ''Undo 1 commit(s) with hard reset'' True ''id-1'' 7
                          (repo toyWorld) (history toyWorld))\<rparr>))))
           0)
       = Some ''git reset --hard ccccccc3''
   \<and> getHeadHash toyGit (repo toyWorld)
       \<noteq> getHeadHash toyGit
           (repo (ledgerSteps toyGit toyConfig [OpGit (HardReset ''HEAD~1'')]
                    (toyWorld\<lparr>history := snd (recordAction toyGit undo_commit
                       ''Undo 1 commit(s) with hard reset'' True ''id-1'' 7
                       (repo toyWorld) (history toyWorld))\<rparr>)))"
proof -
  let ?rec = "recordAction toyGit undo_commit ''Undo 1 commit(s) with hard reset'' True ''id-1'' 7
       (repo toyWorld) (history toyWorld)"
  let ?w2 = "ledgerSteps toyGit toyConfig [OpGit (HardReset ''HEAD~1'')]
               (toyWorld\<lparr>history := snd ?rec\<rparr>)"
  let ?s3 = "completeAction toyGit toyConfig 0 (repo ?w2) (history ?w2)"
  have h1: "?rec = (0, snd ?rec)" by code_simp
  have h2: "OpComplete 0 \<notin> set [OpGit (HardReset ''HEAD~1'')]" by simp
  have c: "undoCommand (deref ?s3 0) = Some ''git reset --hard ccccccc3''" by code_simp
  note t = undoCommand_iff_head_moved[OF h1 h2 refl refl, of toyConfig]
  from t have "(undoCommand (deref ?s3 0) \<noteq> None)
       = (canUndo (deref ?s3 0) \<and> getHeadHash toyGit (repo toyWorld) \<noteq> getHeadHash toyGit (repo ?w2))"
    by blast
  with c have "canUndo (deref ?s3 0) \<and> getHeadHash toyGit (repo toyWorld) \<noteq> getHeadHash toyGit (repo ?w2)"
    by simp
  with h1 h2 c show ?thesis by blast
qed

section \<open>The cap on the stored log\<close>

lemma recordAll_append:
  "recordAll G config (xs @ ys) s = recordAll G config ys (recordAll G config xs s)"
  by (induction xs arbitrary: s) simp_all

lemma snoc_update: "length xs = n \<Longrightarrow> (xs @ [y])[n := z] = xs @ [z]"
  by auto

lemma snoc_nth: "length xs = n \<Longrightarrow> (xs @ [y]) ! n = y"
  by auto

lemma recordAndComplete_step:
  assumes m: "0 \<le> maxActionHistory config" and inv: "logInvariant G config ys s"
  shows "logInvariant G config (ys @ [x]) (recordAndComplete G config x s)
         \<and> workspaceState (recordAndComplete G config x s)
             = Some (map (completedRecord G)
                      (drop (evicted (maxActionHistory config) (Suc (length ys))) (ys @ [x])))"
proof -
  let ?n = "length ys"
  let ?m = "maxActionHistory config"
  let ?objs = "map (completedRecord G) (ys @ [x])"
  let ?acts1 = "drop (evicted ?m ?n) [0 ..< ?n] @ [?n]"
  from inv have o: "objects s = map (completedRecord G) ys"
    and a: "actions s = drop (evicted ?m ?n) [0 ..< ?n]" and c: "has_context s"
    by (simp_all add: logInvariant_def)
  have sl: "slice_from (- ?m) ?acts1 = drop (evicted ?m (Suc ?n)) [0 ..< Suc ?n]"
  proof (cases "?m = 0")
    case True
    then show ?thesis by (simp add: slice_from_def evicted_def)
  next
    case False
    with m have pos: "0 < ?m" by simp
    have e: "?acts1 = drop (?n - nat ?m) [0 ..< Suc ?n]"
      using False by (simp add: evicted_def)
    have len: "length ?acts1 = Suc ?n - (?n - nat ?m)"
      unfolding e by simp
    define j where "j = nat (int (length ?acts1) - ?m)"
    have jval: "j + (?n - nat ?m) = Suc ?n - nat ?m"
      unfolding j_def using pos len by linarith
    have "slice_from (- ?m) ?acts1 = drop j ?acts1"
      using pos by (simp add: slice_from_def Let_def max_def j_def)
    also have "\<dots> = drop j (drop (?n - nat ?m) [0 ..< Suc ?n])"
      by (simp only: e)
    also have "\<dots> = drop (j + (?n - nat ?m)) [0 ..< Suc ?n]"
      by (simp only: drop_drop)
    also have "\<dots> = drop (Suc ?n - nat ?m) [0 ..< Suc ?n]"
      by (simp only: jval)
    finally show ?thesis using False by (simp add: evicted_def)
  qed
  have objs: "objects (recordAndComplete G config x s) = ?objs"
    using o by (simp add: recordAndComplete_def recordAction_def completeAction_def Let_def
        deref_def completedRecord_def snoc_update snoc_nth)
  have acts: "actions (recordAndComplete G config x s) = slice_from (- ?m) ?acts1"
    using a c o by (simp add: recordAndComplete_def recordAction_def completeAction_def Let_def
        saveToStorage_def)
  have ctx: "has_context (recordAndComplete G config x s)"
    using c by (simp add: recordAndComplete_def recordAction_def completeAction_def Let_def)
  have ws: "workspaceState (recordAndComplete G config x s)
              = Some (map (\<lambda>i. ?objs ! i) (slice_from (- ?m) ?acts1))"
    using a c o by (simp add: recordAndComplete_def recordAction_def completeAction_def Let_def
        saveToStorage_def deref_def completedRecord_def snoc_update snoc_nth)
  have lenobjs: "length ?objs = Suc ?n" by simp
  have "map (\<lambda>i. ?objs ! i) (drop (evicted ?m (Suc ?n)) [0 ..< Suc ?n])
          = drop (evicted ?m (Suc ?n)) (map (\<lambda>i. ?objs ! i) [0 ..< length ?objs])"
    by (simp only: drop_map lenobjs)
  also have "\<dots> = drop (evicted ?m (Suc ?n)) ?objs"
    by (simp only: map_nth)
  also have "\<dots> = map (completedRecord G) (drop (evicted ?m (Suc ?n)) (ys @ [x]))"
    by (simp only: drop_map)
  finally show ?thesis
    using objs acts ctx ws sl by (simp add: logInvariant_def)
qed

lemma recordAll_invariant:
  assumes m: "0 \<le> maxActionHistory config"
  shows "logInvariant G config xs (recordAll G config xs emptyHistory)
         \<and> (xs \<noteq> [] \<longrightarrow>
              workspaceState (recordAll G config xs emptyHistory)
                = Some (map (completedRecord G)
                         (drop (evicted (maxActionHistory config) (length xs)) xs)))"
proof (induction xs rule: rev_induct)
  case Nil
  show ?case by (simp add: logInvariant_def emptyHistory_def evicted_def)
next
  case (snoc x xs)
  then have inv: "logInvariant G config xs (recordAll G config xs emptyHistory)" by simp
  from recordAndComplete_step[OF m inv, of x] show ?case
    by (simp add: recordAll_append)
qed

lemma persisted_log_capped:
  assumes "1 \<le> maxActionHistory config" and "xs \<noteq> []"
  shows "workspaceState (recordAll G config xs emptyHistory)
           = Some (map (completedRecord G) (drop (length xs - nat (maxActionHistory config)) xs))
         \<and> length (drop (length xs - nat (maxActionHistory config)) xs) \<le> nat (maxActionHistory config)"
  using assms recordAll_invariant[of config G xs] by (simp add: evicted_def)

lemma persisted_log_uncapped_at_zero:
  assumes "maxActionHistory config = 0" and "xs \<noteq> []"
  shows "workspaceState (recordAll G config xs emptyHistory) = Some (map (completedRecord G) xs)"
  using assms recordAll_invariant[of config G xs] by (simp add: evicted_def)

lemma cap_two_example:
  "workspaceState (recordAll toyGit toyConfig [toyActionA, toyActionB, toyActionC] emptyHistory)
     = Some [completedRecord toyGit toyActionB, completedRecord toyGit toyActionC]"
  by code_simp

text \<open>
  C6. The claim holds for every maximum of at least one (\<open>persisted_log_capped\<close>: after
  each completion the stored log is the last \<open>M\<close> records in the order they were
  recorded) and for the scenario of the specification (\<open>cap_two_example\<close>). It fails for
  the maximum 0: \<^verbatim>\<open>slice(-0)\<close> is the whole array, so with \<open>maxActionHistory = 0\<close>
  and the actions A, B, C the stored log holds all three records, although the setting
  is documented as the maximum number of actions to keep.
\<close>

theorem history_cap_zero_keeps_all:
  "maxActionHistory (toyConfig\<lparr>maxActionHistory := 0\<rparr>) = 0
   \<and> workspaceState
       (recordAll toyGit (toyConfig\<lparr>maxActionHistory := 0\<rparr>)
          [toyActionA, toyActionB, toyActionC] emptyHistory)
     = Some [completedRecord toyGit toyActionA, completedRecord toyGit toyActionB,
             completedRecord toyGit toyActionC]
   \<and> actions
       (recordAll toyGit (toyConfig\<lparr>maxActionHistory := 0\<rparr>)
          [toyActionA, toyActionB, toyActionC] emptyHistory) = [0, 1, 2]"
  by code_simp

section \<open>Commands: undoing commits and continuing an operation\<close>

lemma notify_simps [simp]:
  "calls (notify n w) = calls w" "repo (notify n w) = repo w"
  "history (notify n w) = history w" "shown (notify n w) = shown w @ [n]"
  by (simp_all add: notify_def)

lemma showSafetyWarnings_blocked:
  "\<not> safe r \<Longrightarrow>
     showSafetyWarnings r answer w =
       (False, w\<lparr>shown := shown w @ [ErrorMessage (''Cannot proceed:'' @ newline @ join newline (blockers r))]\<rparr>)"
  by (simp add: showSafetyWarnings_def notify_def)

lemma undoLastCommit_blocked:
  assumes "undo_pickedCommit ans = Some i"
    and "length (getRecentCommits G (Suc i) (repo w)) < Suc i"
  shows "calls (undoLastCommit G config ans ident now w) = calls w
       \<and> repo (undoLastCommit G config ans ident now w) = repo w
       \<and> history (undoLastCommit G config ans ident now w) = history w"
proof (cases "i < length (getRecentCommits G 5 (repo w))")
  case False
  with assms show ?thesis
    by (simp add: undoLastCommit_def Let_def showQuickPick_def commitCounts_def notify_def)
next
  case True
  then have pick: "showQuickPick (commitCounts (getRecentCommits G 5 (repo w))) (undo_pickedCommit ans) = Some (Suc i)"
    using assms(1) by (simp add: showQuickPick_def commitCounts_def)
  have ns: "\<not> safe (checkBeforeReset G mode (Suc i) (repo w))" for mode
    using assms(2) by (simp add: checkBeforeReset_safe)
  show ?thesis
    using True pick
    by (simp add: undoLastCommit_def Let_def showSafetyWarnings_blocked[OF ns] split: option.splits)
qed

text \<open>
  C4. For every mode and count: when the log query returns fewer than \<open>commitCount\<close>
  commits the result holds a blocker and is not safe; the blockers depend on nothing
  else; the warnings are the hard-reset warning (when the mode is hard and there are
  uncommitted changes) followed by one warning for each returned commit that is pushed,
  and never add a blocker; \<open>showSafetyWarnings\<close> answers false on a result that is not
  safe and invokes nothing; and \<open>undoLastCommit\<close>, when the count picked exceeds the
  commits found by the check, invokes no primitive, leaves the repository as it was and
  opens no record.
\<close>

theorem checkBeforeReset_blocks_and_warns:
  "(length (getRecentCommits G n g) < n \<longrightarrow>
      blockers (checkBeforeReset G mode n g) \<noteq> [] \<and> \<not> safe (checkBeforeReset G mode n g))
   \<and> blockers (checkBeforeReset G mode n g) =
       (if length (getRecentCommits G n g) < n
        then [''Only '' @ show_nat (length (getRecentCommits G n g))
                @ '' commits available, cannot undo '' @ show_nat n]
        else [])
   \<and> warnings (checkBeforeReset G mode n g) =
       (if mode = Hard \<and> hasUncommittedChanges G g
        then [''Hard reset will discard all uncommitted changes''] else [])
       @ map pushedWarning (filter (\<lambda>c. isPushed G (hash c) g) (getRecentCommits G n g))
   \<and> (\<not> safe (checkBeforeReset G mode n g) \<longrightarrow>
        fst (showSafetyWarnings (checkBeforeReset G mode n g) answer w) = False
        \<and> calls (snd (showSafetyWarnings (checkBeforeReset G mode n g) answer w)) = calls w)
   \<and> (undo_pickedCommit ans = Some i
        \<and> length (getRecentCommits G (Suc i) (repo w)) < Suc i \<longrightarrow>
        calls (undoLastCommit G config ans ident now w) = calls w
        \<and> repo (undoLastCommit G config ans ident now w) = repo w
        \<and> history (undoLastCommit G config ans ident now w) = history w)"
  using undoLastCommit_blocked[of ans i G w config ident now]
  by (simp add: checkBeforeReset_blockers checkBeforeReset_safe checkBeforeReset_warnings
      showSafetyWarnings_blocked)

theorem checkBeforeReset_blocks_and_warns_witness:
  "undo_pickedCommit toyUndoAnswers = Some 1
   \<and> length (getRecentCommits staleGit (Suc 1) (repo toyWorld)) < Suc 1
   \<and> calls (undoLastCommit staleGit toyConfig toyUndoAnswers ''id-1'' 7 toyWorld) = calls toyWorld
   \<and> repo (undoLastCommit staleGit toyConfig toyUndoAnswers ''id-1'' 7 toyWorld) = repo toyWorld
   \<and> history (undoLastCommit staleGit toyConfig toyUndoAnswers ''id-1'' 7 toyWorld) = history toyWorld
   \<and> blockers (checkBeforeReset staleGit Hard 2 toyRepo)
       = [''Only 0 commits available, cannot undo 2'']
   \<and> warnings (checkBeforeReset toyGit Hard 3 toyRepo)
       = [''Hard reset will discard all uncommitted changes'', pushedWarning commitA]
   \<and> calls (undoLastCommit toyGit toyConfig toyUndoAnswers ''id-1'' 7 toyWorld)
       = [(HardReset ''HEAD~2'', None)]"
proof -
  have h1: "undo_pickedCommit toyUndoAnswers = Some 1" by code_simp
  have h2: "length (getRecentCommits staleGit (Suc 1) (repo toyWorld)) < Suc 1" by code_simp
  have b: "blockers (checkBeforeReset staleGit Hard 2 toyRepo)
       = [''Only 0 commits available, cannot undo 2'']" by code_simp
  have wn: "warnings (checkBeforeReset toyGit Hard 3 toyRepo)
       = [''Hard reset will discard all uncommitted changes'', pushedWarning commitA]" by code_simp
  have ok: "calls (undoLastCommit toyGit toyConfig toyUndoAnswers ''id-1'' 7 toyWorld)
       = [(HardReset ''HEAD~2'', None)]" by code_simp
  from checkBeforeReset_blocks_and_warns[of staleGit "Suc 1" toyRepo Hard None toyWorld
      toyUndoAnswers 1 toyConfig "''id-1''" 7] h1 h2
  have "calls (undoLastCommit staleGit toyConfig toyUndoAnswers ''id-1'' 7 toyWorld) = calls toyWorld
   \<and> repo (undoLastCommit staleGit toyConfig toyUndoAnswers ''id-1'' 7 toyWorld) = repo toyWorld
   \<and> history (undoLastCommit staleGit toyConfig toyUndoAnswers ''id-1'' 7 toyWorld) = history toyWorld"
    by blast
  with h1 h2 b wn ok show ?thesis by blast
qed

lemma performContinue_failure:
  assumes "continueCall operation = Some c"
    and "invoke G c (repo w) = (Some m, g')"
  shows "(str_includes m ''conflict'' \<or> str_includes m ''CONFLICT'' \<longrightarrow>
            performContinue G operation w =
              (None, w\<lparr>repo := g', calls := calls w @ [(c, Some m)],
                       shown := shown w
                         @ [ShowError ''Cannot continue: there are still unresolved conflicts'']\<rparr>))
       \<and> (\<not> (str_includes m ''conflict'' \<or> str_includes m ''CONFLICT'') \<longrightarrow>
            performContinue G operation w =
              (Some m, w\<lparr>repo := g', calls := calls w @ [(c, Some m)]\<rparr>))"
  using assms
  by (cases operation) (auto simp: continueCall_def performContinue_def exec_def notify_def Let_def)


text \<open>
  C9, as amended. A continue of a merge, a rebase or a cherry-pick invokes the matching
  primitive and nothing else. When the primitive throws an error whose message contains
  the substring \<open>conflict\<close> or the substring \<open>CONFLICT\<close> (these two spellings and no other
  mixture of cases), \<open>performContinue\<close> returns normally after showing the error
  \<open>Cannot continue: there are still unresolved conflicts\<close>; the repository is as the
  failed primitive left it and the ledger is untouched, so the operation is still in
  progress. When the message contains neither substring, the same error is thrown on to
  the caller and nothing is shown.
\<close>

theorem continue_conflict_routing:
  assumes "continueCall operation = Some c"
    and "invoke G c (repo w) = (Some m, g')"
  shows "(str_includes m ''conflict'' \<or> str_includes m ''CONFLICT'' \<longrightarrow>
            performContinue G operation w =
              (None, w\<lparr>repo := g', calls := calls w @ [(c, Some m)],
                       shown := shown w
                         @ [ShowError ''Cannot continue: there are still unresolved conflicts'']\<rparr>))
       \<and> (\<not> (str_includes m ''conflict'' \<or> str_includes m ''CONFLICT'') \<longrightarrow>
            performContinue G operation w =
              (Some m, w\<lparr>repo := g', calls := calls w @ [(c, Some m)]\<rparr>))"
  using assms by (rule performContinue_failure)

theorem continue_conflict_routing_witness:
  "continueCall CherryPickOp = Some ContinueCherryPick
   \<and> invoke toyGit ContinueCherryPick (repo toyConflictWorld)
       = (Some ''CONFLICT (content): Merge conflict in a.txt'', repo toyConflictWorld)
   \<and> str_includes ''CONFLICT (content): Merge conflict in a.txt'' ''conflict''
   \<and> performContinue toyGit CherryPickOp toyConflictWorld =
       (None, toyConflictWorld\<lparr>repo := repo toyConflictWorld,
                calls := calls toyConflictWorld
                  @ [(ContinueCherryPick, Some ''CONFLICT (content): Merge conflict in a.txt'')],
                shown := shown toyConflictWorld
                  @ [ShowError ''Cannot continue: there are still unresolved conflicts'']\<rparr>)
   \<and> continueCall Rebase = Some ContinueRebase
   \<and> invoke toyGit ContinueRebase (repo toyConflictWorld)
       = (Some ''fatal: no rebase in progress'', repo toyConflictWorld)
   \<and> \<not> (str_includes ''fatal: no rebase in progress'' ''conflict''
          \<or> str_includes ''fatal: no rebase in progress'' ''CONFLICT'')
   \<and> performContinue toyGit Rebase toyConflictWorld =
       (Some ''fatal: no rebase in progress'',
        toyConflictWorld\<lparr>repo := repo toyConflictWorld,
          calls := calls toyConflictWorld
            @ [(ContinueRebase, Some ''fatal: no rebase in progress'')]\<rparr>)"
proof -
  have c1: "continueCall CherryPickOp = Some ContinueCherryPick" by code_simp
  have i1: "invoke toyGit ContinueCherryPick (repo toyConflictWorld)
       = (Some ''CONFLICT (content): Merge conflict in a.txt'', repo toyConflictWorld)"
    by code_simp
  have m1: "str_includes ''CONFLICT (content): Merge conflict in a.txt'' ''conflict''"
    by code_simp
  have c2: "continueCall Rebase = Some ContinueRebase" by code_simp
  have i2: "invoke toyGit ContinueRebase (repo toyConflictWorld)
       = (Some ''fatal: no rebase in progress'', repo toyConflictWorld)"
    by code_simp
  have m2: "\<not> (str_includes ''fatal: no rebase in progress'' ''conflict''
          \<or> str_includes ''fatal: no rebase in progress'' ''CONFLICT'')"
    by code_simp
  from continue_conflict_routing[OF c1 i1] m1 continue_conflict_routing[OF c2 i2] m2 c1 i1 c2 i2
  show ?thesis by blast
qed

text \<open>
  C9 as stated fails on a message that spells the word with a capital: \<open>Conflict in
  a.txt\<close> contains \<open>conflict\<close> when case is disregarded, yet the continue of the merge
  throws the error on to the caller and shows nothing.
\<close>

theorem continue_mixed_case_counterexample:
  "conflictIgnoringCase ''Conflict in a.txt''
   \<and> continueCall Merge = Some ContinueMerge
   \<and> invoke mixedCaseGit ContinueMerge (repo toyWorld)
       = (Some ''Conflict in a.txt'', repo toyWorld)
   \<and> fst (performContinue mixedCaseGit Merge toyWorld) = Some ''Conflict in a.txt''
   \<and> shown (snd (performContinue mixedCaseGit Merge toyWorld)) = []
   \<and> calls (snd (performContinue mixedCaseGit Merge toyWorld))
       = [(ContinueMerge, Some ''Conflict in a.txt'')]"
  by code_simp

lemma continue_mixed_case_reraised:
  "invoke G ContinueMerge (repo w) = (Some ''Conflict in a.txt'', g') \<Longrightarrow>
     performContinue G Merge w =
       (Some ''Conflict in a.txt'', w\<lparr>repo := g', calls := calls w @ [(ContinueMerge, Some ''Conflict in a.txt'')]\<rparr>)"
proof -
  assume i: "invoke G ContinueMerge (repo w) = (Some ''Conflict in a.txt'', g')"
  have c: "continueCall Merge = Some ContinueMerge" by (simp add: continueCall_def)
  have m: "\<not> (str_includes ''Conflict in a.txt'' ''conflict''
          \<or> str_includes ''Conflict in a.txt'' ''CONFLICT'')" by code_simp
  from performContinue_failure[OF c i] m show ?thesis by blast
qed

lemma continue_success:
  assumes "continueCall operation = Some c" and "invoke G c (repo w) = (None, g')"
  shows "performContinue G operation w =
           (None, w\<lparr>repo := g', calls := calls w @ [(c, None)],
                    shown := shown w @ [ShowSuccess (operationName operation @ '' completed successfully'')]\<rparr>)"
  using assms
  by (cases operation) (auto simp: continueCall_def performContinue_def exec_def notify_def Let_def)

section \<open>The scan of the reflog: results\<close>

lemma startsWith_includes: "startsWith s p \<Longrightarrow> str_includes s p"
  by (cases s) (auto simp: startsWith_def)

lemma startsWith_prefix: "startsWith s (p @ q) \<Longrightarrow> startsWith s p"
proof -
  assume "startsWith s (p @ q)"
  then have "take (length p + length q) s = p @ q" by (simp add: startsWith_def)
  then have "take (length p) (take (length p + length q) s) = take (length p) (p @ q)" by simp
  then show ?thesis by (simp add: startsWith_def min_def)
qed

lemma matchMoveHere_includes:
  "matchMoveHere s = Some m \<Longrightarrow> str_includes s ''checkout: moving from''"
proof -
  assume "matchMoveHere s = Some m"
  then have "startsWith s (''checkout: moving from'' @ '' '')"
    by (auto simp: matchMoveHere_def split: if_splits)
  then have "startsWith s ''checkout: moving from''" by (rule startsWith_prefix)
  then show ?thesis by (rule startsWith_includes)
qed

lemma matchMove_includes:
  "matchMove s = Some m \<Longrightarrow> str_includes s ''checkout: moving from''"
proof (induction s)
  case Nil
  then show ?case using matchMoveHere_includes[of "[]" m] by simp
next
  case (Cons c cs)
  show ?case
  proof (cases "matchMoveHere (c # cs)")
    case None
    with Cons have "str_includes cs ''checkout: moving from''" by simp
    then show ?thesis by simp
  next
    case (Some m')
    from matchMoveHere_includes[OF this] show ?thesis .
  qed
qed

lemma branchMoveOf_eq:
  "branchMoveOf e =
     (case matchMove (entry_message e) of
        None \<Rightarrow> None
      | Some (a, b) \<Rightarrow>
          Some \<lparr>fromBranch = a, toBranch = b, move_hash = entry_hash e,
                move_message = entry_message e\<rparr>)"
  using matchMove_includes[of "entry_message e"]
  by (auto simp: branchMoveOf_def split: option.splits)

lemma branchMoveOf_from:
  "map_option fromBranch (branchMoveOf e) = movedFrom e"
  by (simp add: branchMoveOf_eq movedFrom_def split: option.splits prod.splits)

lemma branchMoveOf_fields:
  "branchMoveOf e = Some m \<Longrightarrow>
     movedFrom e = Some (fromBranch m) \<and> move_hash m = entry_hash e \<and> move_message m = entry_message e"
  by (auto simp: branchMoveOf_eq movedFrom_def split: option.splits prod.splits)

lemma find_branchMoves:
  "map_option (\<lambda>m. (move_hash m, move_message m))
     (find (\<lambda>m. fromBranch m = a) (branchMoves reflog))
   = map_option (\<lambda>e. (entry_hash e, entry_message e))
       (find (\<lambda>e. movedFrom e = Some a) reflog)"
proof (induction reflog)
  case Nil
  then show ?case by (simp add: branchMoves_def map_filter_simps)
next
  case (Cons e es)
  show ?case
  proof (cases "branchMoveOf e")
    case None
    then have "movedFrom e = None" using branchMoveOf_from[of e] by simp
    with None Cons show ?thesis by (simp add: branchMoves_def map_filter_simps)
  next
    case (Some m)
    from branchMoveOf_fields[OF Some] Some Cons show ?thesis
      by (auto simp: branchMoves_def map_filter_simps)
  qed
qed

lemma scanMoves_lookup:
  "map_of (scanMoves ex ms acc) a =
     (case map_of acc a of
        Some v \<Rightarrow> Some v
      | None \<Rightarrow>
          (if a \<notin> set ex \<and> a \<noteq> ''HEAD'' \<and> \<not> isBareHash a
           then map_option (\<lambda>m. (move_hash m, move_message m)) (find (\<lambda>m. fromBranch m = a) ms)
           else None))"
proof (induction ms arbitrary: acc)
  case Nil
  then show ?case by (simp split: option.splits)
next
  case (Cons m ms)
  show ?case
    by (simp add: Cons.IH map_of_append split: option.splits)
      (auto simp: map_add_def split: option.splits)
qed

lemma scanMoves_distinct:
  "distinct (map fst acc) \<Longrightarrow> distinct (map fst (scanMoves ex ms acc))"
proof (induction ms arbitrary: acc)
  case Nil
  then show ?case by simp
next
  case (Cons m ms)
  have "distinct (map fst (acc @ [(fromBranch m, move_hash m, move_message m)]))"
    if "map_of acc (fromBranch m) = None"
    using that Cons.prems by (simp add: map_of_eq_None_iff)
  with Cons show ?case by simp
qed

lemma find_Some_in: "find P xs = Some x \<Longrightarrow> x \<in> set xs \<and> P x"
  by (induction xs) (auto split: if_splits)

lemma find_defined_iff: "(map_option f (find P xs) \<noteq> None) = (\<exists>x\<in>set xs. P x)"
proof (cases "find P xs")
  case None
  then show ?thesis by (simp add: find_None_iff)
next
  case (Some x)
  from find_Some_in[OF this] Some show ?thesis by auto
qed

text \<open>
  C8, as amended. The scan treats a name \<open>a\<close> as a deleted branch if and only if the
  regular expression extracts \<open>a\<close> as the branch left from some reflog entry, no branch
  named \<open>a\<close> exists, \<open>a\<close> is not the literal \<open>HEAD\<close>, and \<open>a\<close> is not a bare hash (7 to 40
  characters, all of them lower-case hexadecimal digits). The hash and message recorded
  for \<open>a\<close> are those of the first such entry in the order of the scan, and no name is
  recorded twice.
\<close>

theorem deleted_branch_iff:
  "map_of (deletedBranches reflog allBranches) a =
     (if a \<notin> set allBranches \<and> a \<noteq> ''HEAD'' \<and> \<not> isBareHash a
      then map_option (\<lambda>e. (entry_hash e, entry_message e))
             (find (\<lambda>e. movedFrom e = Some a) reflog)
      else None)
   \<and> ((a \<in> fst ` set (deletedBranches reflog allBranches))
        = ((\<exists>e\<in>set reflog. movedFrom e = Some a)
           \<and> a \<notin> set allBranches \<and> a \<noteq> ''HEAD'' \<and> \<not> isBareHash a))
   \<and> distinct (map fst (deletedBranches reflog allBranches))"
proof (intro conjI)
  show l: "map_of (deletedBranches reflog allBranches) a =
     (if a \<notin> set allBranches \<and> a \<noteq> ''HEAD'' \<and> \<not> isBareHash a
      then map_option (\<lambda>e. (entry_hash e, entry_message e))
             (find (\<lambda>e. movedFrom e = Some a) reflog)
      else None)"
    by (simp add: deletedBranches_def scanMoves_lookup find_branchMoves)
  have "(a \<in> fst ` set (deletedBranches reflog allBranches))
          = (map_of (deletedBranches reflog allBranches) a \<noteq> None)"
    by (simp add: map_of_eq_None_iff)
  also have "\<dots> = ((\<exists>e\<in>set reflog. movedFrom e = Some a)
           \<and> a \<notin> set allBranches \<and> a \<noteq> ''HEAD'' \<and> \<not> isBareHash a)"
    unfolding l using find_defined_iff[of "\<lambda>e. (entry_hash e, entry_message e)" "\<lambda>e. movedFrom e = Some a" reflog]
    by (cases "a \<notin> set allBranches \<and> a \<noteq> ''HEAD'' \<and> \<not> isBareHash a") simp_all
  finally show "(a \<in> fst ` set (deletedBranches reflog allBranches))
        = ((\<exists>e\<in>set reflog. movedFrom e = Some a)
           \<and> a \<notin> set allBranches \<and> a \<noteq> ''HEAD'' \<and> \<not> isBareHash a)" .
  show "distinct (map fst (deletedBranches reflog allBranches))"
    by (simp add: deletedBranches_def scanMoves_distinct)
qed


theorem deleted_branch_iff_witness:
  "movedFrom (toyReflog ! 0) = Some ''feature/x'' \<and> movedFrom (toyReflog ! 3) = Some ''feature/x''
   \<and> ''feature/x'' \<notin> set [''main''] \<and> ''feature/x'' \<noteq> ''HEAD'' \<and> \<not> isBareHash ''feature/x''
   \<and> ''feature/x'' \<in> fst ` set (deletedBranches toyReflog [''main''])
   \<and> map_of (deletedBranches toyReflog [''main'']) ''feature/x''
       = Some (''1111111aaa'', ''checkout: moving from feature/x to main'')
   \<and> deletedBranches toyReflog [''main'']
       = [(''feature/x'', ''1111111aaa'', ''checkout: moving from feature/x to main'')]"
proof -
  have m0: "movedFrom (toyReflog ! 0) = Some ''feature/x''" by code_simp
  have m3: "movedFrom (toyReflog ! 3) = Some ''feature/x''" by code_simp
  have e0: "toyReflog ! 0 \<in> set toyReflog" by (simp add: toyReflog_def)
  have ad: "''feature/x'' \<notin> set [''main''] \<and> ''feature/x'' \<noteq> ''HEAD'' \<and> \<not> isBareHash ''feature/x''"
    by code_simp
  have v: "map_of (deletedBranches toyReflog [''main'']) ''feature/x''
       = Some (''1111111aaa'', ''checkout: moving from feature/x to main'')" by code_simp
  have d: "deletedBranches toyReflog [''main'']
       = [(''feature/x'', ''1111111aaa'', ''checkout: moving from feature/x to main'')]"
    by code_simp
  have ex: "\<exists>e\<in>set toyReflog. movedFrom e = Some ''feature/x''" using m0 e0 by blast
  from deleted_branch_iff[of toyReflog "[''main'']" "''feature/x''"] ex ad
  have "''feature/x'' \<in> fst ` set (deletedBranches toyReflog [''main''])" by blast
  with m0 m3 ad v d show ?thesis by blast
qed

text \<open>
  C8 as stated fails on the name \<open>HEAD\<close>: the reflog entry matches the pattern with
  \<open>HEAD\<close> as the branch left, no branch is named \<open>HEAD\<close>, and \<open>HEAD\<close> is not a bare hash,
  yet the scan records no deleted branch.
\<close>

theorem deleted_branch_head_counterexample:
  "movedFrom \<lparr>entry_hash = ''abc1234'', entry_message = ''checkout: moving from HEAD to main''\<rparr>
     = Some ''HEAD''
   \<and> ''HEAD'' \<notin> set [''main'']
   \<and> \<not> isBareHash ''HEAD''
   \<and> deletedBranches headReflog [''main''] = []"
  by code_simp

section \<open>Traces: results\<close>

lemma replay_append: "replay G (xs @ ys) g = replay G ys (replay G xs g)"
  by (simp add: replay_def)

lemma replay_Cons: "replay G (c # cs) g = replay G cs (snd (invoke G c g))"
  by (simp add: replay_def)

lemma replay_Nil: "replay G [] g = g"
  by (simp add: replay_def)

lemma traceOf_append:
  "traceOf G g (xs @ ys) = (traceOf G g xs \<and> traceOf G (replay G (map fst xs) g) ys)"
proof (induction xs arbitrary: g)
  case Nil
  show ?case by (simp add: replay_Nil)
next
  case (Cons x xs)
  obtain c outcome where x: "x = (c, outcome)" by (cases x)
  show ?case unfolding x by (simp add: Cons.IH replay_Cons)
qed

lemma ranCalls_refl: "ranCalls G w w []"
  by (simp add: ranCalls_def replay_def)

lemma ranCalls_trans: "ranCalls G w w1 xs \<Longrightarrow> ranCalls G w1 w2 ys \<Longrightarrow> ranCalls G w w2 (xs @ ys)"
  by (simp add: ranCalls_def traceOf_append replay_append)

lemma exec_ranCalls:
  "exec G c w = (outcome, w1) \<Longrightarrow>
     ranCalls G w w1 [(c, outcome)] \<and> shown w1 = shown w \<and> history w1 = history w"
  by (auto simp: exec_def ranCalls_def replay_def split: prod.splits)

lemma cherryPickLoop_ok:
  "cherryPickLoop G cs w = (True, w') \<Longrightarrow>
     ranCalls G w w' (map picked cs) \<and> shown w' = shown w \<and> history w' = history w"
proof (induction cs arbitrary: w)
  case Nil
  then show ?case by (simp add: ranCalls_refl)
next
  case (Cons c cs)
  obtain outcome w1 where e: "exec G (CherryPick (hash c)) w = (outcome, w1)"
    by (cases "exec G (CherryPick (hash c)) w") auto
  with Cons.prems have o: "outcome = None" and l: "cherryPickLoop G cs w1 = (True, w')"
    by (auto split: option.splits)
  from exec_ranCalls[OF e] o have r1: "ranCalls G w w1 [picked c]"
    and s1: "shown w1 = shown w" and h1: "history w1 = history w"
    by (simp_all add: picked_def)
  from Cons.IH[OF l] have r2: "ranCalls G w1 w' (map picked cs)"
    and s2: "shown w' = shown w1" and h2: "history w' = history w1" by simp_all
  from ranCalls_trans[OF r1 r2] s1 s2 h1 h2 show ?case by simp
qed

lemma cherryPickLoop_failed:
  "cherryPickLoop G cs w = (False, w') \<Longrightarrow>
     \<exists>pre c post err.
       cs = pre @ c # post
       \<and> ranCalls G w w' (map picked pre @ [(CherryPick (hash c), Some err)])
       \<and> shown w' = shown w @ [ShowError (cherryPickFailedMessage c)]
       \<and> history w' = history w"
proof (induction cs arbitrary: w)
  case Nil
  then show ?case by simp
next
  case (Cons c cs)
  obtain outcome w1 where e: "exec G (CherryPick (hash c)) w = (outcome, w1)"
    by (cases "exec G (CherryPick (hash c)) w") auto
  show ?case
  proof (cases outcome)
    case None
    with e Cons.prems have l: "cherryPickLoop G cs w1 = (False, w')" by simp
    from exec_ranCalls[OF e] None have r1: "ranCalls G w w1 [picked c]"
      and s1: "shown w1 = shown w" and h1: "history w1 = history w"
      by (simp_all add: picked_def)
    from Cons.IH[OF l] obtain pre d post err where
      cs: "cs = pre @ d # post"
      and r2: "ranCalls G w1 w' (map picked pre @ [(CherryPick (hash d), Some err)])"
      and s2: "shown w' = shown w1 @ [ShowError (cherryPickFailedMessage d)]"
      and h2: "history w' = history w1" by blast
    from ranCalls_trans[OF r1 r2]
    have "ranCalls G w w' (map picked (c # pre) @ [(CherryPick (hash d), Some err)])" by simp
    moreover have "c # cs = (c # pre) @ d # post" using cs by simp
    ultimately show ?thesis using s1 s2 h1 h2
      by (intro exI[of _ "c # pre"] exI[of _ d] exI[of _ post] exI[of _ err]) simp
  next
    case (Some err)
    with e Cons.prems have w': "w' = notify (ShowError (cherryPickFailedMessage c)) w1" by simp
    from exec_ranCalls[OF e] Some have r1: "ranCalls G w w1 [(CherryPick (hash c), Some err)]"
      and s1: "shown w1 = shown w" and h1: "history w1 = history w" by simp_all
    have "ranCalls G w w' (map picked [] @ [(CherryPick (hash c), Some err)])"
      using r1 w' by (simp add: ranCalls_def)
    moreover have "c # cs = [] @ c # cs" by simp
    ultimately show ?thesis using w' s1 h1
      by (intro exI[of _ "[]"] exI[of _ c] exI[of _ cs] exI[of _ err]) simp
  qed
qed

section \<open>Move commits: results\<close>

lemma performMove_cases:
  fixes G :: "'g GitWrapper"
  assumes w': "w' = performMove G config ident now commits n new target cur w"
  shows
    "(\<exists>err. ended G w w' [(targetCheckout new target cur n, Some err)]
              [ShowError (''Failed to move commits: '' @ err)]
              (openedMove G ident now n target w))
     \<or> (\<exists>pre c post err.
           rev (take n commits) = pre @ c # post
           \<and> ended G w w'
                ((targetCheckout new target cur n, None) # map picked pre
                   @ [(CherryPick (hash c), Some err)])
                [ShowError (cherryPickFailedMessage c)]
                (openedMove G ident now n target w))
     \<or> (\<exists>err. ended G w w'
                ((targetCheckout new target cur n, None) # map picked (rev (take n commits))
                   @ [(CheckoutBranch cur, Some err)])
                [ShowError (''Failed to move commits: '' @ err)]
                (openedMove G ident now n target w))
     \<or> (\<exists>err. ended G w w'
                ((targetCheckout new target cur n, None) # map picked (rev (take n commits))
                   @ [(CheckoutBranch cur, None), (HardReset (''HEAD~'' @ show_nat n), Some err)])
                [ShowError (''Failed to move commits: '' @ err)]
                (openedMove G ident now n target w))
     \<or> ended G w w'
           ((targetCheckout new target cur n, None) # map picked (rev (take n commits))
              @ [(CheckoutBranch cur, None), (HardReset (''HEAD~'' @ show_nat n), None)])
           [ShowSuccess (movedMessage n target)]
           (completeAction G config (length (objects (history w))) (repo w')
              (openedMove G ident now n target w))"
proof -
  let ?s1 = "openedMove G ident now n target w"
  let ?a = "length (objects (history w))"
  let ?w1 = "w\<lparr>history := ?s1\<rparr>"
  let ?first = "targetCheckout new target cur n"
  let ?picks = "rev (take n commits)"
  let ?href = "HardReset (''HEAD~'' @ show_nat n)"
  have ra: "recordAction G move_commits (moveDescription n target) True ident now (repo w) (history w)
              = (?a, ?s1)"
    by (simp add: recordAction_def openedMove_def Let_def)
  have pm: "performMove G config ident now commits n new target cur w =
     (case exec G ?first ?w1 of
           (Some err, w2) \<Rightarrow> moveCommitsFailed err w2
         | (None, w2) \<Rightarrow>
             (case cherryPickLoop G ?picks w2 of
                (False, w3) \<Rightarrow> w3
              | (True, w3) \<Rightarrow>
                  (case exec G (CheckoutBranch cur) w3 of
                     (Some err, w4) \<Rightarrow> moveCommitsFailed err w4
                   | (None, w4) \<Rightarrow>
                       (case exec G ?href w4 of
                          (Some err, w5) \<Rightarrow> moveCommitsFailed err w5
                        | (None, w5) \<Rightarrow>
                            notify (ShowSuccess (movedMessage n target))
                              (w5\<lparr>history := completeAction G config ?a (repo w5) (history w5)\<rparr>)))))"
    by (simp only: performMove_def ra Let_def prod.case)
  obtain o1 w2 where e1: "exec G ?first ?w1 = (o1, w2)"
    by (cases "exec G ?first ?w1") auto
  from exec_ranCalls[OF e1] have r1: "ranCalls G w w2 [(?first, o1)]"
    and s1: "shown w2 = shown w" and h1: "history w2 = ?s1"
    by (simp_all add: ranCalls_def)
  show ?thesis
  proof (cases o1)
    case (Some err)
    with e1 pm w' have "w' = moveCommitsFailed err w2" by simp
    with r1 s1 h1 Some have "ended G w w' [(?first, Some err)]
        [ShowError (''Failed to move commits: '' @ err)] ?s1"
      by (simp add: ended_def moveCommitsFailed_def ranCalls_def)
    then show ?thesis by blast
  next
    case None
    note o1 = None
    obtain b w3 where l: "cherryPickLoop G ?picks w2 = (b, w3)"
      by (cases "cherryPickLoop G ?picks w2") auto
    show ?thesis
    proof (cases b)
      case False
      with e1 o1 l pm w' have w3: "w' = w3" by simp
      have l': "cherryPickLoop G ?picks w2 = (False, w3)" using l False by simp
      from cherryPickLoop_failed[OF l'] obtain pre c post err where
        sp: "?picks = pre @ c # post"
        and r2: "ranCalls G w2 w3 (map picked pre @ [(CherryPick (hash c), Some err)])"
        and s2: "shown w3 = shown w2 @ [ShowError (cherryPickFailedMessage c)]"
        and h2: "history w3 = history w2" by blast
      from ranCalls_trans[OF r1 r2] o1
      have "ranCalls G w w3 ((?first, None) # map picked pre @ [(CherryPick (hash c), Some err)])"
        by simp
      with s1 s2 h1 h2 w3 have "ended G w w'
          ((?first, None) # map picked pre @ [(CherryPick (hash c), Some err)])
          [ShowError (cherryPickFailedMessage c)] ?s1"
        by (simp add: ended_def)
      with sp show ?thesis by blast
    next
      case True
      have l': "cherryPickLoop G ?picks w2 = (True, w3)" using l True by simp
      from cherryPickLoop_ok[OF l']
      have r2: "ranCalls G w2 w3 (map picked ?picks)"
        and s2: "shown w3 = shown w2" and h2: "history w3 = history w2" by simp_all
      from ranCalls_trans[OF r1 r2] o1
      have r12: "ranCalls G w w3 ((?first, None) # map picked ?picks)" by simp
      obtain o2 w4 where e2: "exec G (CheckoutBranch cur) w3 = (o2, w4)"
        by (cases "exec G (CheckoutBranch cur) w3") auto
      from exec_ranCalls[OF e2] have r3: "ranCalls G w3 w4 [(CheckoutBranch cur, o2)]"
        and s3: "shown w4 = shown w3" and h3: "history w4 = history w3" by simp_all
      from ranCalls_trans[OF r12 r3]
      have r123: "ranCalls G w w4 ((?first, None) # map picked ?picks @ [(CheckoutBranch cur, o2)])"
        by simp
      show ?thesis
      proof (cases o2)
        case (Some err)
        with e1 o1 l True e2 pm w' have "w' = moveCommitsFailed err w4" by simp
        with r123 s1 s2 s3 h1 h2 h3 Some have "ended G w w'
            ((?first, None) # map picked ?picks @ [(CheckoutBranch cur, Some err)])
            [ShowError (''Failed to move commits: '' @ err)] ?s1"
          by (simp add: ended_def moveCommitsFailed_def ranCalls_def)
        then show ?thesis by blast
      next
        case None
        note o2 = None
        obtain o3 w5 where e3: "exec G ?href w4 = (o3, w5)"
          by (cases "exec G ?href w4") auto
        from exec_ranCalls[OF e3] have r4: "ranCalls G w4 w5 [(?href, o3)]"
          and s4: "shown w5 = shown w4" and h4: "history w5 = history w4" by simp_all
        from ranCalls_trans[OF r123 r4] o2
        have r1234: "ranCalls G w w5
            ((?first, None) # map picked ?picks @ [(CheckoutBranch cur, None), (?href, o3)])"
          by simp
        show ?thesis
        proof (cases o3)
          case (Some err)
          with e1 o1 l True e2 o2 e3 pm w' have "w' = moveCommitsFailed err w5" by simp
          with r1234 s1 s2 s3 s4 h1 h2 h3 h4 Some have "ended G w w'
              ((?first, None) # map picked ?picks
                 @ [(CheckoutBranch cur, None), (?href, Some err)])
              [ShowError (''Failed to move commits: '' @ err)] ?s1"
            by (simp add: ended_def moveCommitsFailed_def ranCalls_def)
          then show ?thesis by blast
        next
          case None
          with e1 o1 l True e2 o2 e3 pm w'
          have "w' = notify (ShowSuccess (movedMessage n target))
                       (w5\<lparr>history := completeAction G config ?a (repo w5) (history w5)\<rparr>)"
            by simp
          with r1234 s1 s2 s3 s4 h1 h2 h3 h4 None have "ended G w w'
              ((?first, None) # map picked ?picks
                 @ [(CheckoutBranch cur, None), (?href, None)])
              [ShowSuccess (movedMessage n target)]
              (completeAction G config ?a (repo w') ?s1)"
            by (simp add: ended_def ranCalls_def)
          then show ?thesis by blast
        qed
      qed
    qed
  qed
qed

lemma noSuccess_simps [simp]:
  "noSuccess []" "noSuccess [ShowError m]" "noSuccess [ErrorMessage m]"
  "noSuccess [WarningMessage m]" "\<not> noSuccess [ShowSuccess m]"
  "noSuccess (xs @ ys) = (noSuccess xs \<and> noSuccess ys)"
  by (simp_all add: noSuccess_def)

lemma noSuccess_mem: "noSuccess xs \<Longrightarrow> ShowSuccess m \<notin> set xs"
  by (auto simp: noSuccess_def list_all_iff)

lemma showSafetyWarnings_quiet:
  "showSafetyWarnings r answer w = (proceed, w1) \<Longrightarrow>
     calls w1 = calls w \<and> repo w1 = repo w \<and> history w1 = history w
     \<and> (\<exists>xs. shown w1 = shown w @ xs \<and> noSuccess xs)"
  by (auto simp: showSafetyWarnings_def split: if_splits)

lemma showQuickPick_commitCounts:
  "showQuickPick (commitCounts commits) answer = Some n \<Longrightarrow>
     \<exists>i. answer = Some i \<and> i < length commits \<and> n = Suc i"
  by (auto simp: showQuickPick_def commitCounts_def split: option.splits if_splits)

lemma moveCommits_ends:
  assumes w': "w' = moveCommits G config ans ident now w"
  shows
    "(calls w' = calls w \<and> repo w' = repo w \<and> history w' = history w
      \<and> (\<exists>xs. shown w' = shown w @ xs \<and> noSuccess xs))
     \<or> (\<exists>n sel target w1 xs.
           chosen G ans w n sel target
           \<and> calls w1 = calls w \<and> repo w1 = repo w \<and> history w1 = history w
           \<and> shown w1 = shown w @ xs \<and> noSuccess xs
           \<and> w' = performMove G config ident now (getRecentCommits G 10 (repo w)) n
                    (isNew sel) target (getCurrentBranch G (repo w)) w1)"
proof -
  let ?commits = "getRecentCommits G 10 (repo w)"
  let ?cur = "getCurrentBranch G (repo w)"
  let ?quiet = "calls w' = calls w \<and> repo w' = repo w \<and> history w' = history w
      \<and> (\<exists>xs. shown w' = shown w @ xs \<and> noSuccess xs)"
  have same: "w' = w \<Longrightarrow> ?quiet"
  proof -
    assume "w' = w"
    then have "calls w' = calls w \<and> repo w' = repo w \<and> history w' = history w
       \<and> shown w' = shown w @ [] \<and> noSuccess []" by simp
    then show ?quiet by blast
  qed
  show ?thesis
  proof (cases "length ?commits = 0")
    case True
    with w' have "w' = notify (ShowError ''No commits to move'') w"
      by (simp add: moveCommits_def)
    then have "calls w' = calls w \<and> repo w' = repo w \<and> history w' = history w
       \<and> shown w' = shown w @ [ShowError ''No commits to move'']
       \<and> noSuccess [ShowError ''No commits to move'']" by simp
    then have ?quiet by blast
    then show ?thesis by blast
  next
    case False
    note nonempty = False
    show ?thesis
    proof (cases "showQuickPick (commitCounts ?commits) (pickedCommit ans)")
      case None
      with w' nonempty have "w' = w" by (simp add: moveCommits_def)
      from same[OF this] show ?thesis by blast
    next
      case (Some n)
      note pickC = Some
      from showQuickPick_commitCounts[OF Some] obtain i where
        i: "pickedCommit ans = Some i" "i < length ?commits" "n = Suc i" by blast
      show ?thesis
      proof (cases "showQuickPick (branchOptions (getBranches G (repo w)) ?cur) (pickedBranch ans)")
        case None
        with w' nonempty pickC have "w' = w" by (simp add: moveCommits_def Let_def)
        from same[OF this] show ?thesis by blast
      next
        case (Some sel)
        note pickB = Some
        show ?thesis
        proof (cases "chooseTarget sel (typedBranchName ans)")
          case None
          with w' nonempty pickC pickB have "w' = w" by (simp add: moveCommits_def Let_def)
          from same[OF this] show ?thesis by blast
        next
          case (Some target)
          note tgt = Some
          have ch: "chosen G ans w n sel target"
            using i pickB tgt by (simp add: chosen_def)
          obtain proceed w1 where
            sw: "showSafetyWarnings (checkBeforeReset G Hard n (repo w)) (warningsAnswer ans) w
                   = (proceed, w1)"
            by (cases "showSafetyWarnings (checkBeforeReset G Hard n (repo w)) (warningsAnswer ans) w")
              auto
          from showSafetyWarnings_quiet[OF sw] obtain xs where
            q: "calls w1 = calls w" "repo w1 = repo w" "history w1 = history w"
               "shown w1 = shown w @ xs" "noSuccess xs" by blast
          let ?w2 = "notify (WarningMessage (confirmMoveText target n ?cur)) w1"
          have q2: "calls ?w2 = calls w" "repo ?w2 = repo w" "history ?w2 = history w"
            "shown ?w2 = shown w @ (xs @ [WarningMessage (confirmMoveText target n ?cur)])"
            "noSuccess (xs @ [WarningMessage (confirmMoveText target n ?cur)])"
            using q by simp_all
          have body: "w' = (if \<not> proceed then w1
                            else if confirmAnswer ans \<noteq> Some ''Yes, move commits'' then ?w2
                            else performMove G config ident now ?commits n (isNew sel) target ?cur ?w2)"
            using w' nonempty pickC pickB tgt sw by (simp add: moveCommits_def Let_def)
          show ?thesis
          proof (cases "\<not> proceed")
            case True
            with body have "w' = w1" by simp
            with q have ?quiet by blast
            then show ?thesis by blast
          next
            case False
            note pr = False
            show ?thesis
            proof (cases "confirmAnswer ans \<noteq> Some ''Yes, move commits''")
              case True
              with body pr have "w' = ?w2" by simp
              with q2 have ?quiet by metis
              then show ?thesis by blast
            next
              case False
              with body pr
              have "w' = performMove G config ident now ?commits n (isNew sel) target ?cur ?w2"
                by simp
              with ch q2 show ?thesis by blast
            qed
          qed
        qed
      qed
    qed
  qed
qed

lemma ended_shift:
  "calls w1 = calls w \<Longrightarrow> repo w1 = repo w \<Longrightarrow> shown w1 = shown w @ xs \<Longrightarrow>
     ended G w1 w' new notes hist \<Longrightarrow> ended G w w' new (xs @ notes) hist"
  by (simp add: ended_def ranCalls_def)

lemma openedMove_same:
  "repo w1 = repo w \<Longrightarrow> history w1 = history w \<Longrightarrow>
     openedMove G ident now n target w1 = openedMove G ident now n target w"
  by (simp add: openedMove_def)

lemma ended_facts:
  "ended G w w' new notes hist \<Longrightarrow>
     issued w w' = new \<and> emitted w w' = notes \<and> calls w' = calls w @ new
     \<and> traceOf G (repo w) new \<and> repo w' = replay G (map fst new) (repo w) \<and> history w' = hist
     \<and> shown w' = shown w @ notes"
  by (simp add: ended_def ranCalls_def issued_def emitted_def)

lemma moveCommits_outcome:
  fixes G :: "'g GitWrapper"
  assumes w': "w' = moveCommits G config ans ident now w"
  shows
    "(calls w' = calls w \<and> repo w' = repo w \<and> history w' = history w
      \<and> (\<exists>xs. shown w' = shown w @ xs \<and> noSuccess xs))
     \<or> (\<exists>n sel target xs.
           chosen G ans w n sel target \<and> noSuccess xs
           \<and> moveOutcome G config ident now w w' n sel target xs)"
proof -
  let ?commits = "getRecentCommits G 10 (repo w)"
  let ?cur = "getCurrentBranch G (repo w)"
  from moveCommits_ends[OF w'] show ?thesis
  proof
    assume "calls w' = calls w \<and> repo w' = repo w \<and> history w' = history w
      \<and> (\<exists>xs. shown w' = shown w @ xs \<and> noSuccess xs)"
    then show ?thesis by blast
  next
    assume "\<exists>n sel target w1 xs.
           chosen G ans w n sel target
           \<and> calls w1 = calls w \<and> repo w1 = repo w \<and> history w1 = history w
           \<and> shown w1 = shown w @ xs \<and> noSuccess xs
           \<and> w' = performMove G config ident now ?commits n (isNew sel) target ?cur w1"
    then obtain n sel target w1 xs where
      ch: "chosen G ans w n sel target"
      and c1: "calls w1 = calls w" and r1: "repo w1 = repo w" and h1: "history w1 = history w"
      and s1: "shown w1 = shown w @ xs" and ns: "noSuccess xs"
      and pm: "w' = performMove G config ident now ?commits n (isNew sel) target ?cur w1"
      by blast
    note sh = ended_shift[OF c1 r1 s1]
    have om: "openedMove G ident now n target w1 = openedMove G ident now n target w"
      using r1 h1 by (rule openedMove_same)
    let ?first = "targetCheckout (isNew sel) target ?cur n"
    let ?picks = "rev (take n ?commits)"
    let ?href = "HardReset (''HEAD~'' @ show_nat n)"
    let ?opened = "openedMove G ident now n target w"
    from performMove_cases[OF pm]
    consider
      (a) err where "ended G w1 w' [(?first, Some err)]
              [ShowError (''Failed to move commits: '' @ err)] ?opened"
    | (b) pre c post err where "?picks = pre @ c # post"
          "ended G w1 w' ((?first, None) # map picked pre @ [(CherryPick (hash c), Some err)])
             [ShowError (cherryPickFailedMessage c)] ?opened"
    | (c) err where "ended G w1 w'
             ((?first, None) # map picked ?picks @ [(CheckoutBranch ?cur, Some err)])
             [ShowError (''Failed to move commits: '' @ err)] ?opened"
    | (d) err where "ended G w1 w'
             ((?first, None) # map picked ?picks @ [(CheckoutBranch ?cur, None), (?href, Some err)])
             [ShowError (''Failed to move commits: '' @ err)] ?opened"
    | (e) "ended G w1 w'
             ((?first, None) # map picked ?picks @ [(CheckoutBranch ?cur, None), (?href, None)])
             [ShowSuccess (movedMessage n target)]
             (completeAction G config (length (objects (history w))) (repo w') ?opened)"
      unfolding om h1 by blast
    then show ?thesis
    proof cases
      case a
      from sh[OF a] ch ns show ?thesis unfolding moveOutcome_def by blast
    next
      case b
      from sh[OF b(2)] b(1) ch ns show ?thesis unfolding moveOutcome_def by blast
    next
      case c
      from sh[OF c] ch ns show ?thesis unfolding moveOutcome_def by blast
    next
      case d
      from sh[OF d] ch ns show ?thesis unfolding moveOutcome_def by blast
    next
      case e
      from sh[OF e] ch ns show ?thesis unfolding moveOutcome_def by blast
    qed
  qed
qed

lemma showQuickPick_mem: "showQuickPick xs answer = Some x \<Longrightarrow> x \<in> set xs"
  by (auto simp: showQuickPick_def split: option.splits if_splits)

lemma chosen_target_not_current:
  assumes "chosen G ans w n sel target" and "\<not> isNew sel"
  shows "Some target \<noteq> getCurrentBranch G (repo w)"
proof -
  from assms(1) have m: "sel \<in> set (branchOptions (getBranches G (repo w)) (getCurrentBranch G (repo w)))"
    and t: "chooseTarget sel (typedBranchName ans) = Some target"
    by (auto simp: chosen_def dest: showQuickPick_mem)
  from t assms(2) have "target = branchName sel" by (simp add: chooseTarget_def)
  moreover from m assms(2) have "Some (branchName sel) \<noteq> getCurrentBranch G (repo w)"
    by (auto simp: branchOptions_def)
  ultimately show ?thesis by simp
qed

lemma chosen_count:
  "chosen G ans w n sel target \<Longrightarrow>
     0 < n \<and> n \<le> length (getRecentCommits G 10 (repo w))
     \<and> length (rev (take n (getRecentCommits G 10 (repo w)))) = n"
  by (auto simp: chosen_def)

lemma quiet_issued: "calls w' = calls w \<Longrightarrow> issued w w' = []"
  by (simp add: issued_def)

lemma quiet_emitted: "shown w' = shown w @ xs \<Longrightarrow> emitted w w' = xs"
  by (simp add: emitted_def)

lemma failed_pick_is_last:
  "(CherryPick h, Some err)
     \<in> set ((targetCheckout new target cur n, None) # map picked cs @ [(CherryPick k, Some e)])
   \<Longrightarrow> h = k \<and> err = e"
  by (auto simp: targetCheckout_def picked_def)

lemma ended_no_success:
  "ended G w w' new (xs @ [ShowError e]) hist \<Longrightarrow> noSuccess xs \<Longrightarrow>
     ShowSuccess m \<notin> set (emitted w w')"
  using ended_facts[of G w w' new "xs @ [ShowError e]" hist] noSuccess_mem[of xs m] by simp

lemma ended_success:
  "ended G w w' new (xs @ [ShowSuccess m']) hist \<Longrightarrow> noSuccess xs \<Longrightarrow>
     ShowSuccess m \<in> set (emitted w w') \<Longrightarrow> m = m'"
  using ended_facts[of G w w' new "xs @ [ShowSuccess m']" hist] noSuccess_mem[of xs m] by simp

lemma moveOutcome_success:
  fixes G :: "'g GitWrapper"
  assumes out: "moveOutcome G config ident now w w' n sel target xs"
    and ns: "noSuccess xs"
    and ok: "ShowSuccess m \<in> set (emitted w w')"
  shows "m = movedMessage n target
       \<and> ended G w w'
            ((targetCheckout (isNew sel) target (getCurrentBranch G (repo w)) n, None)
               # map picked (rev (take n (getRecentCommits G 10 (repo w))))
               @ [(CheckoutBranch (getCurrentBranch G (repo w)), None),
                  (HardReset (''HEAD~'' @ show_nat n), None)])
            (xs @ [ShowSuccess (movedMessage n target)])
            (completeAction G config (length (objects (history w))) (repo w')
               (openedMove G ident now n target w))"
  using out unfolding moveOutcome_def
  apply (elim disjE exE conjE)
  subgoal premises p for e using ended_no_success[OF p ns, of m] ok by simp
  subgoal premises p for pre c post e using ended_no_success[OF p(2) ns, of m] ok by simp
  subgoal premises p for e using ended_no_success[OF p ns, of m] ok by simp
  subgoal premises p for e using ended_no_success[OF p ns, of m] ok by simp
  subgoal premises p using ended_success[OF p ns ok] p by simp
  done

lemma moveOutcome_failed_pick:
  fixes G :: "'g GitWrapper"
  assumes out: "moveOutcome G config ident now w w' n sel target xs"
    and bad: "(CherryPick h, Some err) \<in> set (issued w w')"
  shows "\<exists>pre c post.
           rev (take n (getRecentCommits G 10 (repo w))) = pre @ c # post
           \<and> hash c = h
           \<and> ended G w w'
                ((targetCheckout (isNew sel) target (getCurrentBranch G (repo w)) n, None)
                   # map picked pre @ [(CherryPick (hash c), Some err)])
                (xs @ [ShowError (cherryPickFailedMessage c)])
                (openedMove G ident now n target w)"
proof -
  have key: "(CherryPick h, Some err) \<in> set new" if "ended G w w' new msgs hist" for new msgs hist
    using ended_facts[OF that] bad by simp
  from out show ?thesis unfolding moveOutcome_def
    apply (elim disjE exE conjE)
    subgoal premises p for e using key[OF p] by (auto simp: targetCheckout_def split: if_splits)
    subgoal premises p for pre c post e using failed_pick_is_last[OF key[OF p(2)]] p by blast
    subgoal premises p for e using key[OF p] by (auto simp: targetCheckout_def picked_def split: if_splits)
    subgoal premises p for e using key[OF p] by (auto simp: targetCheckout_def picked_def split: if_splits)
    subgoal premises p using key[OF p] by (auto simp: targetCheckout_def picked_def split: if_splits)
    done
qed

lemma moveCommits_failed_pick:
  fixes G :: "'g GitWrapper"
  assumes w': "w' = moveCommits G config ans ident now w"
    and bad: "(CherryPick h, Some err) \<in> set (issued w w')"
  shows "\<exists>n sel target xs pre c post.
           chosen G ans w n sel target \<and> noSuccess xs
           \<and> rev (take n (getRecentCommits G 10 (repo w))) = pre @ c # post
           \<and> hash c = h
           \<and> ended G w w'
                ((targetCheckout (isNew sel) target (getCurrentBranch G (repo w)) n, None)
                   # map picked pre @ [(CherryPick (hash c), Some err)])
                (xs @ [ShowError (cherryPickFailedMessage c)])
                (openedMove G ident now n target w)"
proof -
  have nq: "calls w' \<noteq> calls w" using bad quiet_issued[of w' w] by auto
  with moveCommits_outcome[OF w'] obtain n sel target xs where
    ch: "chosen G ans w n sel target" and ns: "noSuccess xs"
    and out: "moveOutcome G config ident now w w' n sel target xs" by blast
  from moveOutcome_failed_pick[OF out bad] ch ns show ?thesis by blast
qed

lemma moveCommits_succeeded:
  fixes G :: "'g GitWrapper"
  assumes w': "w' = moveCommits G config ans ident now w"
    and ok: "ShowSuccess m \<in> set (emitted w w')"
  shows "\<exists>n sel target xs.
           chosen G ans w n sel target \<and> noSuccess xs
           \<and> m = movedMessage n target
           \<and> ended G w w'
               ((targetCheckout (isNew sel) target (getCurrentBranch G (repo w)) n, None)
                  # map picked (rev (take n (getRecentCommits G 10 (repo w))))
                  @ [(CheckoutBranch (getCurrentBranch G (repo w)), None),
                     (HardReset (''HEAD~'' @ show_nat n), None)])
               (xs @ [ShowSuccess (movedMessage n target)])
               (completeAction G config (length (objects (history w))) (repo w')
                  (openedMove G ident now n target w))"
proof -
  have nq: "\<not> (\<exists>xs. shown w' = shown w @ xs \<and> noSuccess xs)"
  proof
    assume "\<exists>xs. shown w' = shown w @ xs \<and> noSuccess xs"
    then obtain xs where "shown w' = shown w @ xs" "noSuccess xs" by blast
    with ok show False using quiet_emitted[of w' w xs] noSuccess_mem[of xs m] by simp
  qed
  with moveCommits_outcome[OF w'] obtain n sel target xs where
    ch: "chosen G ans w n sel target" and ns: "noSuccess xs"
    and out: "moveOutcome G config ident now w w' n sel target xs" by blast
  from moveOutcome_success[OF out ns ok] ch ns show ?thesis by blast
qed

text \<open>
  C3. A run of moveCommits that shows its success notification has invoked exactly this
  sequence of primitives, each of which returned, and nothing else: first the target
  branch is created and checked out at \<open>currentBranch~N\<close> (at \<open>HEAD~N\<close> when HEAD is
  detached), or, when an existing branch was chosen, that branch is checked out; then
  the \<open>N\<close> newest commits are cherry-picked in the reverse of the order in which the log
  lists them, that is oldest first; then the branch that was current at the start is
  checked out; then a hard reset to \<open>HEAD~N\<close> follows. The repository at the end is the
  one these primitives leave.
\<close>

theorem moveCommits_success_sequence:
  fixes G :: "'g GitWrapper"
  assumes w': "w' = moveCommits G config ans ident now w"
    and ok: "ShowSuccess m \<in> set (emitted w w')"
  shows "\<exists>n sel target.
           chosen G ans w n sel target
           \<and> length (rev (take n (getRecentCommits G 10 (repo w)))) = n
           \<and> issued w w' =
               ((if isNew sel
                 then CheckoutNewBranch target
                        (baseBranch (getCurrentBranch G (repo w)) @ ''~'' @ show_nat n)
                 else CheckoutBranch (Some target)), None)
               # map picked (rev (take n (getRecentCommits G 10 (repo w))))
               @ [(CheckoutBranch (getCurrentBranch G (repo w)), None),
                  (HardReset (''HEAD~'' @ show_nat n), None)]
           \<and> calls w' = calls w @ issued w w'
           \<and> traceOf G (repo w) (issued w w')
           \<and> repo w' = replay G (map fst (issued w w')) (repo w)
           \<and> m = movedMessage n target"
proof -
  let ?commits = "getRecentCommits G 10 (repo w)"
  let ?cur = "getCurrentBranch G (repo w)"
  from moveCommits_succeeded[OF w' ok] obtain n sel target xs where
    ch: "chosen G ans w n sel target" and m: "m = movedMessage n target"
    and en: "ended G w w'
               ((targetCheckout (isNew sel) target ?cur n, None)
                  # map picked (rev (take n ?commits))
                  @ [(CheckoutBranch ?cur, None), (HardReset (''HEAD~'' @ show_nat n), None)])
               (xs @ [ShowSuccess (movedMessage n target)])
               (completeAction G config (length (objects (history w))) (repo w')
                  (openedMove G ident now n target w))"
    by blast
  note f = ended_facts[OF en]
  from f have iss: "issued w w' =
               ((if isNew sel
                 then CheckoutNewBranch target (baseBranch ?cur @ ''~'' @ show_nat n)
                 else CheckoutBranch (Some target)), None)
               # map picked (rev (take n ?commits))
               @ [(CheckoutBranch ?cur, None), (HardReset (''HEAD~'' @ show_nat n), None)]"
    by (simp add: targetCheckout_def)
  from f iss have "calls w' = calls w @ issued w w'"
    and "traceOf G (repo w) (issued w w')"
    and "repo w' = replay G (map fst (issued w w')) (repo w)"
    by (simp_all add: targetCheckout_def)
  with ch chosen_count[OF ch] iss m show ?thesis by blast
qed

theorem moveCommits_success_sequence_witness:
  "ShowSuccess (movedMessage 2 ''feature/x'')
     \<in> set (emitted toyWorld (moveCommits toyGit toyConfig toyMoveAnswers ''id-m'' 9 toyWorld))
   \<and> (\<exists>n sel target.
         chosen toyGit toyMoveAnswers toyWorld n sel target
         \<and> movedMessage 2 ''feature/x'' = movedMessage n target
         \<and> issued toyWorld (moveCommits toyGit toyConfig toyMoveAnswers ''id-m'' 9 toyWorld) =
               ((if isNew sel
                 then CheckoutNewBranch target
                        (baseBranch (getCurrentBranch toyGit (repo toyWorld)) @ ''~'' @ show_nat n)
                 else CheckoutBranch (Some target)), None)
               # map picked (rev (take n (getRecentCommits toyGit 10 (repo toyWorld))))
               @ [(CheckoutBranch (getCurrentBranch toyGit (repo toyWorld)), None),
                  (HardReset (''HEAD~'' @ show_nat n), None)])
   \<and> issued toyWorld (moveCommits toyGit toyConfig toyMoveAnswers ''id-m'' 9 toyWorld)
       = [(CheckoutNewBranch ''feature/x'' ''main~2'', None),
          (CherryPick ''bbbbbbb2'', None), (CherryPick ''ccccccc3'', None),
          (CheckoutBranch (Some ''main''), None), (HardReset ''HEAD~2'', None)]"
proof -
  let ?w' = "moveCommits toyGit toyConfig toyMoveAnswers ''id-m'' 9 toyWorld"
  have ok: "ShowSuccess (movedMessage 2 ''feature/x'') \<in> set (emitted toyWorld ?w')"
    by code_simp
  have tr: "issued toyWorld ?w'
       = [(CheckoutNewBranch ''feature/x'' ''main~2'', None),
          (CherryPick ''bbbbbbb2'', None), (CherryPick ''ccccccc3'', None),
          (CheckoutBranch (Some ''main''), None), (HardReset ''HEAD~2'', None)]"
    by code_simp
  from moveCommits_success_sequence[OF refl ok] ok tr show ?thesis by blast
qed

text \<open>
  C2. When some cherry-pick of a run of moveCommits throws, the run has chosen \<open>N\<close>
  commits and a target branch, the commits to move split into those already picked, the
  failing commit \<open>c\<close> and the rest, and the primitives invoked are exactly: the checkout
  of the target, the cherry-picks of the commits before \<open>c\<close> (all returned), and the
  failing cherry-pick of \<open>c\<close>, which is the last. So nothing is rolled back, no later
  commit is picked, there is no checkout back to the source branch and no hard reset;
  the repository is as the failing cherry-pick left it, on the target branch. The last
  notification is the error whose text is \<open>Cherry-pick failed for commit\<close>, the first seven
  characters of the hash of \<open>c\<close>, and \<open>. Please resolve conflicts manually.\<close>
\<close>

theorem moveCommits_stops_at_failed_pick:
  fixes G :: "'g GitWrapper"
  assumes w': "w' = moveCommits G config ans ident now w"
    and bad: "(CherryPick h, Some err) \<in> set (issued w w')"
  shows "\<exists>n sel target pre c post.
           chosen G ans w n sel target
           \<and> rev (take n (getRecentCommits G 10 (repo w))) = pre @ c # post
           \<and> hash c = h
           \<and> issued w w' =
               ((if isNew sel
                 then CheckoutNewBranch target
                        (baseBranch (getCurrentBranch G (repo w)) @ ''~'' @ show_nat n)
                 else CheckoutBranch (Some target)), None)
               # map picked pre @ [(CherryPick h, Some err)]
           \<and> calls w' = calls w @ issued w w'
           \<and> traceOf G (repo w) (issued w w')
           \<and> repo w' = replay G (map fst (issued w w')) (repo w)
           \<and> (\<forall>x\<in>set (issued w w').
                 fst x \<noteq> CheckoutBranch (getCurrentBranch G (repo w))
                 \<and> (\<forall>r. fst x \<noteq> HardReset r))
           \<and> last (shown w') = ShowError (cherryPickFailedMessage c)
           \<and> ShowError (cherryPickFailedMessage c) \<in> set (emitted w w')
           \<and> last (shown w') =
               ShowError (''Cherry-pick failed for commit '' @ take 7 h
                            @ ''. Please resolve conflicts manually.'')
           \<and> last (issued w w') = (CherryPick h, Some err)"
proof -
  let ?commits = "getRecentCommits G 10 (repo w)"
  let ?cur = "getCurrentBranch G (repo w)"
  from moveCommits_failed_pick[OF w' bad] obtain n sel target xs pre c post where
    ch: "chosen G ans w n sel target"
    and sp: "rev (take n ?commits) = pre @ c # post" and hc: "hash c = h"
    and en: "ended G w w'
                ((targetCheckout (isNew sel) target ?cur n, None)
                   # map picked pre @ [(CherryPick (hash c), Some err)])
                (xs @ [ShowError (cherryPickFailedMessage c)])
                (openedMove G ident now n target w)"
    by blast
  note f = ended_facts[OF en]
  let ?first = "if isNew sel
                 then CheckoutNewBranch target (baseBranch ?cur @ ''~'' @ show_nat n)
                 else CheckoutBranch (Some target)"
  from f hc have iss: "issued w w' = (?first, None) # map picked pre @ [(CherryPick h, Some err)]"
    by (simp add: targetCheckout_def)
  from f iss have tr: "calls w' = calls w @ issued w w'"
    "traceOf G (repo w) (issued w w')"
    "repo w' = replay G (map fst (issued w w')) (repo w)"
    by (simp_all add: targetCheckout_def)
  have first_ok: "?first \<noteq> CheckoutBranch ?cur \<and> (\<forall>r. ?first \<noteq> HardReset r)"
    using chosen_target_not_current[OF ch] by auto
  have none: "\<forall>x\<in>set (issued w w'). fst x \<noteq> CheckoutBranch ?cur \<and> (\<forall>r. fst x \<noteq> HardReset r)"
    unfolding iss using first_ok by (auto simp: picked_def)
  from f have sh: "last (shown w') = ShowError (cherryPickFailedMessage c)"
    and em: "ShowError (cherryPickFailedMessage c) \<in> set (emitted w w')" by simp_all
  from sh hc have msgtext: "last (shown w') =
               ShowError (''Cherry-pick failed for commit '' @ take 7 h
                            @ ''. Please resolve conflicts manually.'')"
    by (simp add: cherryPickFailedMessage_def substring0_def)
  have lst: "last (issued w w') = (CherryPick h, Some err)"
    unfolding iss by simp
  from ch sp hc iss tr none sh em msgtext lst show ?thesis by blast
qed

theorem moveCommits_stops_at_failed_pick_witness:
  "(CherryPick ''ccccccc3'', Some ''CONFLICT (content): could not apply ccccccc3'')
     \<in> set (issued toyConflictWorld
               (moveCommits toyGit toyConfig toyMoveAnswers ''id-m'' 9 toyConflictWorld))
   \<and> (\<exists>n sel target pre c post.
         chosen toyGit toyMoveAnswers toyConflictWorld n sel target
         \<and> rev (take n (getRecentCommits toyGit 10 (repo toyConflictWorld))) = pre @ c # post
         \<and> hash c = ''ccccccc3''
         \<and> last (shown (moveCommits toyGit toyConfig toyMoveAnswers ''id-m'' 9 toyConflictWorld))
             = ShowError (cherryPickFailedMessage c))
   \<and> issued toyConflictWorld
        (moveCommits toyGit toyConfig toyMoveAnswers ''id-m'' 9 toyConflictWorld)
       = [(CheckoutNewBranch ''feature/x'' ''main~2'', None),
          (CherryPick ''bbbbbbb2'', None),
          (CherryPick ''ccccccc3'', Some ''CONFLICT (content): could not apply ccccccc3'')]
   \<and> last (shown (moveCommits toyGit toyConfig toyMoveAnswers ''id-m'' 9 toyConflictWorld))
       = ShowError ''Cherry-pick failed for commit ccccccc. Please resolve conflicts manually.''
   \<and> toy_current (repo (moveCommits toyGit toyConfig toyMoveAnswers ''id-m'' 9 toyConflictWorld))
       = Some ''feature/x''"
proof -
  let ?w' = "moveCommits toyGit toyConfig toyMoveAnswers ''id-m'' 9 toyConflictWorld"
  have bad: "(CherryPick ''ccccccc3'', Some ''CONFLICT (content): could not apply ccccccc3'')
     \<in> set (issued toyConflictWorld ?w')" by code_simp
  have tr: "issued toyConflictWorld ?w'
       = [(CheckoutNewBranch ''feature/x'' ''main~2'', None),
          (CherryPick ''bbbbbbb2'', None),
          (CherryPick ''ccccccc3'', Some ''CONFLICT (content): could not apply ccccccc3'')]"
    by code_simp
  have sh: "last (shown ?w')
       = ShowError ''Cherry-pick failed for commit ccccccc. Please resolve conflicts manually.''"
    by code_simp
  have br: "toy_current (repo ?w') = Some ''feature/x''" by code_simp
  from moveCommits_stops_at_failed_pick[OF refl bad] bad tr sh br show ?thesis by blast
qed

text \<open>
  C10. When some cherry-pick of a run of moveCommits throws, the ledger at the end is the
  ledger right after \<open>recordAction\<close>: the new record is the last of the array, nothing
  has been stored, and \<open>completeAction\<close> has not run, so the record has no \<open>afterState\<close>
  and no \<open>undoCommand\<close> and the scan for the last undoable action does not return it.
  This stays so for good: after any later operations on the ledger and the repository
  (new records, completions of other records, undos, clearing, primitives) other than a
  completion of this very record, whose handle was lost when moveCommits returned, the
  record is unchanged and the scan still does not return it, so no \<open>undoLastAction\<close>
  reverts the move.
\<close>

theorem failed_move_leaves_open_record:
  fixes G :: "'g GitWrapper"
  assumes w': "w' = moveCommits G config ans ident now w"
    and bad: "(CherryPick h, Some err) \<in> set (issued w w')"
    and ops: "OpComplete (length (objects (history w))) \<notin> set ops"
  shows "(\<exists>n sel target.
            chosen G ans w n sel target \<and> history w' = openedMove G ident now n target w)
       \<and> actions (history w') = actions (history w) @ [length (objects (history w))]
       \<and> workspaceState (history w') = workspaceState (history w)
       \<and> action_type (deref (history w') (length (objects (history w)))) = move_commits
       \<and> canUndo (deref (history w') (length (objects (history w))))
       \<and> afterState (deref (history w') (length (objects (history w)))) = None
       \<and> undoCommand (deref (history w') (length (objects (history w)))) = None
       \<and> getLastUndoableAction (history w') \<noteq> Some (length (objects (history w)))
       \<and> deref (history (ledgerSteps G config ops w')) (length (objects (history w)))
           = deref (history w') (length (objects (history w)))
       \<and> getLastUndoableAction (history (ledgerSteps G config ops w'))
           \<noteq> Some (length (objects (history w)))"
proof -
  let ?a = "length (objects (history w))"
  from moveCommits_failed_pick[OF w' bad] obtain n sel target xs pre c post where
    ch: "chosen G ans w n sel target"
    and en: "ended G w w'
                ((targetCheckout (isNew sel) target (getCurrentBranch G (repo w)) n, None)
                   # map picked pre @ [(CherryPick (hash c), Some err)])
                (xs @ [ShowError (cherryPickFailedMessage c)])
                (openedMove G ident now n target w)"
    by blast
  from ended_facts[OF en] have h: "history w' = openedMove G ident now n target w" by simp
  have ra: "recordAction G move_commits (moveDescription n target) True ident now (repo w) (history w)
              = (?a, history w')"
    unfolding h openedMove_def by (simp add: recordAction_def Let_def)
  note r = recordAction_result[OF ra]
  from r have o: "openAt (history w') ?a" by blast
  from r have acts: "actions (history w') = actions (history w) @ [?a]" by blast
  from r have ws: "workspaceState (history w') = workspaceState (history w)" by blast
  from r have d: "deref (history w') ?a =
         \<lparr>action_id = ident, action_type = move_commits, timestamp = now,
          description = moveDescription n target,
          beforeState = \<lparr>headHash = getHeadHash G (repo w), branch = getCurrentBranch G (repo w)\<rparr>,
          afterState = None, undoCommand = None, canUndo = True\<rparr>" by blast
  from ledgerSteps_frame[OF o ops, of G config]
  have later: "deref (history (ledgerSteps G config ops w')) ?a = deref (history w') ?a"
    and o2: "openAt (history (ledgerSteps G config ops w')) ?a" by simp_all
  from ch h have "\<exists>n sel target.
            chosen G ans w n sel target \<and> history w' = openedMove G ident now n target w"
    by blast
  with acts ws d later open_not_candidate[OF o] open_not_candidate[OF o2]
  show ?thesis by simp
qed

theorem failed_move_leaves_open_record_witness:
  "(CherryPick ''ccccccc3'', Some ''CONFLICT (content): could not apply ccccccc3'')
     \<in> set (issued toyConflictWorld
               (moveCommits toyGit toyConfig toyMoveAnswers ''id-m'' 9 toyConflictWorld))
   \<and> OpComplete (length (objects (history toyConflictWorld))) \<notin> set toyLaterOps
   \<and> undoCommand
        (deref (history (moveCommits toyGit toyConfig toyMoveAnswers ''id-m'' 9 toyConflictWorld))
           (length (objects (history toyConflictWorld)))) = None
   \<and> getLastUndoableAction
        (history (ledgerSteps toyGit toyConfig toyLaterOps
                    (moveCommits toyGit toyConfig toyMoveAnswers ''id-m'' 9 toyConflictWorld)))
       \<noteq> Some (length (objects (history toyConflictWorld)))
   \<and> actions
        (history (ledgerSteps toyGit toyConfig toyLaterOps
                    (moveCommits toyGit toyConfig toyMoveAnswers ''id-m'' 9 toyConflictWorld)))
       = [0, 1]
   \<and> calls
        (ledgerSteps toyGit toyConfig toyLaterOps
           (moveCommits toyGit toyConfig toyMoveAnswers ''id-m'' 9 toyConflictWorld))
       = [(CheckoutNewBranch ''feature/x'' ''main~2'', None),
          (CherryPick ''bbbbbbb2'', None),
          (CherryPick ''ccccccc3'', Some ''CONFLICT (content): could not apply ccccccc3''),
          (HardReset ''HEAD~1'', None),
          (HardReset ''bbbbbbb2'', None)]"
proof -
  let ?w' = "moveCommits toyGit toyConfig toyMoveAnswers ''id-m'' 9 toyConflictWorld"
  have bad: "(CherryPick ''ccccccc3'', Some ''CONFLICT (content): could not apply ccccccc3'')
     \<in> set (issued toyConflictWorld ?w')" by code_simp
  have ops: "OpComplete (length (objects (history toyConflictWorld))) \<notin> set toyLaterOps"
    by code_simp
  have acts: "actions (history (ledgerSteps toyGit toyConfig toyLaterOps ?w')) = [0, 1]"
    by code_simp
  have cl: "calls (ledgerSteps toyGit toyConfig toyLaterOps ?w')
       = [(CheckoutNewBranch ''feature/x'' ''main~2'', None),
          (CherryPick ''bbbbbbb2'', None),
          (CherryPick ''ccccccc3'', Some ''CONFLICT (content): could not apply ccccccc3''),
          (HardReset ''HEAD~1'', None),
          (HardReset ''bbbbbbb2'', None)]"
    by code_simp
  from failed_move_leaves_open_record[OF refl bad ops] bad ops acts cl
  show ?thesis by blast
qed

end
